theory Spec2Isabelle
  imports Complex_Main
begin

section \<open>Values, errors and the drawing surface\<close>

text \<open>
  The module \<^verbatim>\<open>seaborn/plotobjs.py\<close> is a set of plotting functions over matplotlib,
  scipy and moss. Each function is a sequence of calls on an axis object, so an axis is
  modelled by the list of calls it (and the artists it owns) has received, oldest first.
  Python values that travel through keyword arguments or into drawing calls are values of
  \<open>pyval\<close>; numpy's floating point numbers are idealised as reals.
\<close>

datatype error =
    ValueError string
  | IndexError
  | KeyError
  | TypeError
  | AttributeError
  | LinAlgError

datatype pyval =
    VNone
  | VBool bool
  | VNum real
  | VNaN
  | VStr string
  | VAxis nat
  | VList "real list"
  | VArray "real list list"
  | VNd "nat list" "real list"
  | VStrs "string list"
  | VSeq "pyval list"
  | VDict "(string \<times> pyval) list"

type_synonym kwargs = "(string \<times> pyval) list"

datatype call =
    Call string "pyval list" kwargs
  | Style string nat string pyval
  | LineRemove

text \<open>
  \<open>Call m args kw\<close> is the method call \<^verbatim>\<open>ax.m(*args, **kw)\<close>; \<open>Style g i m v\<close> is
  \<^verbatim>\<open>boxes[g][i].m(v)\<close> on an artist that \<^verbatim>\<open>ax.boxplot\<close> returned; \<open>LineRemove\<close> is
  \<^verbatim>\<open>line.remove()\<close> on the line the preceding \<^verbatim>\<open>ax.plot\<close> returned.

  The state outside the function is pyplot's: the axes that exist (numbered in order of
  creation), the subplot that the current figure holds at position 111, if any, and the
  colorbars added to the current figure.
\<close>

record world =
  drawn :: "nat \<Rightarrow> call list"
  fig111 :: "nat option"
  next_ax :: nat
  colorbars :: "nat list"

text \<open>
  \<^verbatim>\<open>plt.subplot(111)\<close>: pyplot returns the subplot 111 of the current figure, and
  creates it, as the next axis, when the figure has none. An axis not yet created has
  received no call.
\<close>

definition plt_subplot :: "world \<Rightarrow> nat \<times> world" where
  "plt_subplot w =
     (case fig111 w of
        Some a \<Rightarrow> (a, w)
      | None \<Rightarrow> (next_ax w, w\<lparr>fig111 := Some (next_ax w), next_ax := Suc (next_ax w)\<rparr>))"

text \<open>\<^verbatim>\<open>plt.colorbar(mat_img)\<close> for an image drawn on axis \<open>a\<close>.\<close>

definition plt_colorbar :: "nat \<Rightarrow> world \<Rightarrow> world" where
  "plt_colorbar a w = w\<lparr>colorbars := colorbars w @ [a]\<rparr>"

definition ax_call :: "nat \<Rightarrow> call \<Rightarrow> world \<Rightarrow> world" where
  "ax_call a c w = w\<lparr>drawn := (drawn w)(a := drawn w a @ [c])\<rparr>"

definition ax_calls :: "nat \<Rightarrow> call list \<Rightarrow> world \<Rightarrow> world" where
  "ax_calls a cs w = w\<lparr>drawn := (drawn w)(a := drawn w a @ cs)\<rparr>"

text \<open>\<^verbatim>\<open>kwargs.pop(k, d)\<close> and \<^verbatim>\<open>kwargs.get(k, d)\<close> on a keyword dictionary.\<close>

definition pop :: "string \<Rightarrow> pyval \<Rightarrow> kwargs \<Rightarrow> pyval \<times> kwargs" where
  "pop k d kw =
     (case map_of kw k of
        Some v \<Rightarrow> (v, filter (\<lambda>p. fst p \<noteq> k) kw)
      | None \<Rightarrow> (d, kw))"

definition get :: "string \<Rightarrow> pyval \<Rightarrow> kwargs \<Rightarrow> pyval" where
  "get k d kw = (case map_of kw k of Some v \<Rightarrow> v | None \<Rightarrow> d)"

text \<open>
  A function whose signature names a parameter \<^verbatim>\<open>ax=None\<close> next to \<^verbatim>\<open>**kwargs\<close>
  (tsplot, regplot, rugplot) receives a keyword argument \<^verbatim>\<open>ax\<close> in that parameter, and
  its \<^verbatim>\<open>kwargs\<close> never holds the key. \<open>named_ax kw\<close> is the parameter and
  \<open>rest_kwargs kw\<close> the dictionary, for the keyword arguments \<open>kw\<close> of the call.
\<close>

definition named_ax :: "kwargs \<Rightarrow> pyval" where
  "named_ax kw = get ''ax'' VNone kw"

definition rest_kwargs :: "kwargs \<Rightarrow> kwargs" where
  "rest_kwargs kw = filter (\<lambda>p. fst p \<noteq> ''ax'') kw"

section \<open>The collaborating libraries\<close>

text \<open>
  The statistics (moss, scipy, numpy), the string formatting and what matplotlib answers
  when asked (a line's colour, an axis' limits, the artists of a boxplot) are not code of
  the module. They are parameters of the model: every theorem holds for all of them.
  The constructor of scipy's kernel density estimate is a parameter that may raise: it
  answers with an error or with the density it has built.
\<close>

record libs =
  bootstrap :: "real list list \<Rightarrow> nat \<Rightarrow> bool \<Rightarrow> (real list list \<Rightarrow> real list) \<Rightarrow> real list list"
  percentiles :: "real list list \<Rightarrow> real \<times> real \<Rightarrow> real list \<times> real list"
  sample_percentiles :: "real list \<Rightarrow> real list \<Rightarrow> real list"
  ci_to_errsize :: "real list \<times> real list \<Rightarrow> real list \<Rightarrow> real list list"
  get_color :: "kwargs \<Rightarrow> string"
  get_xlim :: "call list \<Rightarrow> real \<times> real"
  get_ylim :: "call list \<Rightarrow> real \<times> real"
  polyfit :: "real list \<Rightarrow> real list \<Rightarrow> real \<times> real"
  sig_stars :: "real \<Rightarrow> string"
  format :: "string \<Rightarrow> pyval list \<Rightarrow> string"
  gaussian_kde :: "real list \<Rightarrow> error + (real \<Rightarrow> real)"
  mean :: "real list \<Rightarrow> real"
  median :: "real list \<Rightarrow> real"
  corrcoef :: "real list list \<Rightarrow> real list list"
  randomize_corrmat :: "real list list \<Rightarrow> string \<Rightarrow> bool \<Rightarrow> real list list"
  artists :: "string \<Rightarrow> real list list \<Rightarrow> nat"

section \<open>tsplot and its error styles\<close>

definition plot_ci_band ::
  "libs \<Rightarrow> nat \<Rightarrow> real list \<Rightarrow> real list list \<Rightarrow> real list list \<Rightarrow> real list \<Rightarrow>
   real list \<times> real list \<Rightarrow> string \<Rightarrow> world \<Rightarrow> world" where
  "plot_ci_band L ax x data boot_data central_data ci color w =
     (let (low, high) = ci
      in ax_call ax (Call ''fill_between'' [VList x, VList low, VList high]
                       [(''color'', VStr color), (''alpha'', VNum 0.2)]) w)"

definition plot_ci_bars ::
  "libs \<Rightarrow> nat \<Rightarrow> real list \<Rightarrow> real list list \<Rightarrow> real list list \<Rightarrow> real list \<Rightarrow>
   real list \<times> real list \<Rightarrow> string \<Rightarrow> world \<Rightarrow> world" where
  "plot_ci_bars L ax x data boot_data central_data ci color w =
     (let err = ci_to_errsize L ci central_data
      in ax_call ax (Call ''errorbar'' [VList x, VList central_data]
                       [(''yerr'', VArray err), (''color'', VStr color)]) w)"

definition plot_boot_traces ::
  "libs \<Rightarrow> nat \<Rightarrow> real list \<Rightarrow> real list list \<Rightarrow> real list list \<Rightarrow> real list \<Rightarrow>
   real list \<times> real list \<Rightarrow> string \<Rightarrow> world \<Rightarrow> world" where
  "plot_boot_traces L ax x data boot_data central_data ci color w =
     ax_call ax (Call ''plot'' [VList x, VArray (transpose (take 250 boot_data))]
                   [(''color'', VStr color), (''alpha'', VNum 0.25), (''linewidth'', VNum 0.25)]) w"

definition plot_obs_traces ::
  "libs \<Rightarrow> nat \<Rightarrow> real list \<Rightarrow> real list list \<Rightarrow> real list list \<Rightarrow> real list \<Rightarrow>
   real list \<times> real list \<Rightarrow> string \<Rightarrow> world \<Rightarrow> world" where
  "plot_obs_traces L ax x data boot_data central_data ci color w =
     ax_call ax (Call ''plot'' [VList x, VArray (transpose data)]
                   [(''color'', VStr color), (''alpha'', VNum 0.2)]) w"

definition plot_obs_points ::
  "libs \<Rightarrow> nat \<Rightarrow> real list \<Rightarrow> real list list \<Rightarrow> real list list \<Rightarrow> real list \<Rightarrow>
   real list \<times> real list \<Rightarrow> string \<Rightarrow> world \<Rightarrow> world" where
  "plot_obs_points L ax x data boot_data central_data ci color w =
     ax_call ax (Call ''plot'' [VList x, VArray (transpose data), VStr ''o'']
                   [(''color'', VStr color), (''alpha'', VNum 0.5), (''markersize'', VNum 3)]) w"

text \<open>
  \<^verbatim>\<open>globals()["_plot_%s" % style]\<close>: the module's global names that start with
  \<^verbatim>\<open>_plot_\<close> are the five subroutines above; any other key raises KeyError (\<open>None\<close>).
\<close>

definition globals_plot ::
  "string \<Rightarrow> (libs \<Rightarrow> nat \<Rightarrow> real list \<Rightarrow> real list list \<Rightarrow> real list list \<Rightarrow> real list \<Rightarrow>
     real list \<times> real list \<Rightarrow> string \<Rightarrow> world \<Rightarrow> world) option" where
  "globals_plot style =
     map_of [(''ci_band'', plot_ci_band), (''ci_bars'', plot_ci_bars),
             (''boot_traces'', plot_boot_traces), (''obs_traces'', plot_obs_traces),
             (''obs_points'', plot_obs_points)] style"

text \<open>The loop \<^verbatim>\<open>for style in err_style\<close> of tsplot; it stops at the first raise.\<close>

fun plot_styles ::
  "libs \<Rightarrow> nat \<Rightarrow> real list \<Rightarrow> real list list \<Rightarrow> real list list \<Rightarrow> real list \<Rightarrow>
   real list \<times> real list \<Rightarrow> string \<Rightarrow> string list \<Rightarrow> world \<Rightarrow> error option \<times> world" where
  "plot_styles L ax x data boot_data central_data ci color [] w = (None, w)"
| "plot_styles L ax x data boot_data central_data ci color (style # rest) w =
     (case globals_plot style of
        None \<Rightarrow> (Some (ValueError (style @ '' is not a valid err_style'')), w)
      | Some plot_func \<Rightarrow>
          plot_styles L ax x data boot_data central_data ci color rest
            (plot_func L ax x data boot_data central_data ci color w))"

text \<open>
  \<^verbatim>\<open>ax.m(*args, k=v, ..., **kwargs)\<close>: Python raises TypeError when \<^verbatim>\<open>kwargs\<close> repeats a
  keyword that the call already gives.
\<close>

definition kw_call ::
  "nat \<Rightarrow> string \<Rightarrow> pyval list \<Rightarrow> kwargs \<Rightarrow> kwargs \<Rightarrow> world \<Rightarrow> error option \<times> world" where
  "kw_call ax m args explicit kwargs w =
     (if filter (\<lambda>p. map_of kwargs (fst p) \<noteq> None) explicit \<noteq> [] then (Some TypeError, w)
      else (None, ax_call ax (Call m args (explicit @ kwargs)) w))"

text \<open>
  An object that is no axis has no method \<^verbatim>\<open>plot\<close>: the first call on it raises
  AttributeError. The parameter \<^verbatim>\<open>ax\<close> of tsplot is bound and then overwritten by
  \<^verbatim>\<open>kwargs.pop("ax", plt.subplot(111))\<close>, whose default is evaluated before the pop.
\<close>

definition tsplot ::
  "libs \<Rightarrow> real list \<Rightarrow> real list list \<Rightarrow> string list \<Rightarrow> real \<times> real \<Rightarrow>
   (real list list \<Rightarrow> real list) \<Rightarrow> nat \<Rightarrow> bool \<Rightarrow> kwargs \<Rightarrow> world \<Rightarrow> (error + nat) \<times> world" where
  "tsplot L x data err_style ci central_func n_boot smooth kw w =
     (let ax = named_ax kw;
          kwargs = rest_kwargs kw;
          (new_ax, w) = plt_subplot w;
          (ax, kwargs) = pop ''ax'' (VAxis new_ax) kwargs;
          boot_data = bootstrap L data n_boot smooth central_func;
          ci = percentiles L boot_data ci;
          central_data = central_func data
      in case ax of
           VAxis ax \<Rightarrow>
             (let w = ax_call ax (Call ''plot'' [VList x, VList central_data] kwargs) w;
                  color = get_color L kwargs;
                  w = ax_call ax LineRemove w
              in case plot_styles L ax x data boot_data central_data ci color err_style w of
                   (Some e, w) \<Rightarrow> (Inl e, w)
                 | (None, w) \<Rightarrow>
                     (case kw_call ax ''plot'' [VList x, VList central_data]
                             [(''color'', VStr color)] kwargs w of
                        (Some e, w) \<Rightarrow> (Inl e, w)
                      | (None, w) \<Rightarrow> (Inr ax, w)))
         | _ \<Rightarrow> (Inl AttributeError, w))"

section \<open>regplot\<close>

definition polyval :: "real \<Rightarrow> real \<Rightarrow> real list \<Rightarrow> real list" where
  "polyval a b xs = map (\<lambda>t. a * t + b) xs"

definition regplot ::
  "libs \<Rightarrow> real list \<Rightarrow> real list \<Rightarrow> string \<Rightarrow> string \<Rightarrow> string \<Rightarrow>
   (real list \<Rightarrow> real list \<Rightarrow> real \<times> real) \<Rightarrow> kwargs \<Rightarrow> world \<Rightarrow> (error + nat) \<times> world" where
  "regplot L x y xlabel ylabel markerstyle corr_func kw w =
     (let ax = named_ax kw;
          kwargs = rest_kwargs kw;
          (ax, w) = (if ax = VNone then (case plt_subplot w of (n, w) \<Rightarrow> (VAxis n, w))
                     else (ax, w));
          (a, b) = polyfit L x y
      in case ax of
           VAxis ax \<Rightarrow>
             (let w = ax_call ax (Call ''plot'' [VList x, VList y, VStr markerstyle] []) w;
                  xlim = get_xlim L (drawn w ax);
                  xlim = [fst xlim, snd xlim];
                  w = ax_call ax (Call ''plot'' [VList xlim, VList (polyval a b xlim)] kwargs) w;
                  (r, p) = corr_func x y;
                  w = ax_call ax
                        (Call ''set_title''
                           [VStr (format L ''r = %.3f; p = %.3g%s''
                                    [VNum r, VNum p, VStr (sig_stars L p)])] []) w;
                  w = ax_call ax (Call ''set_xlabel'' [VStr xlabel] []) w;
                  w = ax_call ax (Call ''set_ylabel'' [VStr ylabel] []) w
              in (Inr ax, w))
         | _ \<Rightarrow> (Inl AttributeError, w))"

section \<open>boxplot\<close>

text \<open>\<^verbatim>\<open>v[0]\<close> on a Python value.\<close>

definition subscript0 :: "pyval \<Rightarrow> error + pyval" where
  "subscript0 v =
     (case v of
        VList xs \<Rightarrow> (case xs of [] \<Rightarrow> Inl IndexError | x # _ \<Rightarrow> Inr (VNum x))
      | VArray xs \<Rightarrow> (case xs of [] \<Rightarrow> Inl IndexError | x # _ \<Rightarrow> Inr (VList x))
      | VStrs xs \<Rightarrow> (case xs of [] \<Rightarrow> Inl IndexError | x # _ \<Rightarrow> Inr (VStr x))
      | VSeq xs \<Rightarrow> (case xs of [] \<Rightarrow> Inl IndexError | x # _ \<Rightarrow> Inr x)
      | VStr s \<Rightarrow> (case s of [] \<Rightarrow> Inl IndexError | c # _ \<Rightarrow> Inr (VStr [c]))
      | VNd sh xs \<Rightarrow>
          (case sh of
             [] \<Rightarrow> Inl IndexError
           | n # sh' \<Rightarrow> if n = 0 then Inl IndexError else Inr (VNd sh' (take (prod_list sh') xs)))
      | VDict d \<Rightarrow> Inl KeyError
      | _ \<Rightarrow> Inl TypeError)"

definition gray :: string where
  "gray = ''#555555''"

text \<open>
  The five styling loops of boxplot over the artists that \<^verbatim>\<open>ax.boxplot\<close> returned; how
  many artists of each kind there are is matplotlib's answer.
\<close>

definition box_styles :: "libs \<Rightarrow> real list list \<Rightarrow> string \<Rightarrow> call list" where
  "box_styles L vals color =
     concat (map (\<lambda>i. [Style ''boxes'' i ''set_color'' (VStr color),
                        Style ''boxes'' i ''set_alpha'' (VNum 0.7),
                        Style ''boxes'' i ''set_linewidth'' (VNum 1.5),
                        Style ''boxes'' i ''set_edgecolor'' (VStr gray)])
               [0..<artists L ''boxes'' vals]) @
     concat (map (\<lambda>i. [Style ''whiskers'' i ''set_color'' (VStr gray),
                        Style ''whiskers'' i ''set_linewidth'' (VNum 2),
                        Style ''whiskers'' i ''set_alpha'' (VNum 0.7),
                        Style ''whiskers'' i ''set_linestyle'' (VStr ''-'')])
               [0..<artists L ''whiskers'' vals]) @
     concat (map (\<lambda>i. [Style ''caps'' i ''set_color'' (VStr gray),
                        Style ''caps'' i ''set_linewidth'' (VNum 1.5),
                        Style ''caps'' i ''set_alpha'' (VNum 0.7)])
               [0..<artists L ''caps'' vals]) @
     concat (map (\<lambda>i. [Style ''medians'' i ''set_color'' (VStr gray),
                        Style ''medians'' i ''set_linewidth'' (VNum 1.5)])
               [0..<artists L ''medians'' vals]) @
     concat (map (\<lambda>i. [Style ''fliers'' i ''set_color'' (VStr gray),
                        Style ''fliers'' i ''set_marker'' (VStr ''d''),
                        Style ''fliers'' i ''set_alpha'' (VNum 0.6)])
               [0..<artists L ''fliers'' vals])"

text \<open>
  Lines 176 to 180 of boxplot: with no colour given, a throw-away line is plotted to read
  the colour that matplotlib picks. The result is the colour and what is left of
  \<^verbatim>\<open>kwargs\<close>.
\<close>

definition boxplot_color ::
  "libs \<Rightarrow> real list list \<Rightarrow> string option \<Rightarrow> pyval \<Rightarrow> kwargs \<Rightarrow> world \<Rightarrow>
   (error + string \<times> kwargs) \<times> world" where
  "boxplot_color L vals color ax kwargs w =
     (case color of
        Some c \<Rightarrow> (Inr (c, kwargs), w)
      | None \<Rightarrow>
          (let (positions, kwargs) = pop ''positions'' (VList [1]) kwargs
           in case subscript0 positions of
                Inl e \<Rightarrow> (Inl e, w)
              | Inr pos \<Rightarrow>
                  (case ax of
                     VAxis ax \<Rightarrow>
                       (case vals of
                          [] \<Rightarrow> (Inl IndexError, w)
                        | v0 # _ \<Rightarrow>
                            (let w = ax_call ax (Call ''plot'' [pos, VNum (mean L v0)] kwargs) w;
                                 color = get_color L kwargs;
                                 w = ax_call ax LineRemove w
                             in (Inr (color, kwargs), w)))
                   | _ \<Rightarrow> (Inl AttributeError, w))))"

definition boxplot ::
  "libs \<Rightarrow> real list list \<Rightarrow> bool \<Rightarrow> string list option \<Rightarrow> string option \<Rightarrow> kwargs \<Rightarrow>
   world \<Rightarrow> (error + nat) \<times> world" where
  "boxplot L vals join_rm names color kw w =
     (let (new_ax, w) = plt_subplot w;
          (ax, kwargs) = pop ''ax'' (VAxis new_ax) kw
      in case boxplot_color L vals color ax kwargs w of
           (Inl e, w) \<Rightarrow> (Inl e, w)
         | (Inr (color, kwargs), w) \<Rightarrow>
             (case ax of
                VAxis ax \<Rightarrow>
                  (case kw_call ax ''boxplot'' [VArray vals] [(''patch_artist'', VBool True)]
                          kwargs w of
                     (Some e, w) \<Rightarrow> (Inl e, w)
                   | (None, w) \<Rightarrow>
                       (let w = ax_calls ax (box_styles L vals color) w;
                            w = (if join_rm
                                 then ax_call ax
                                        (Call ''plot''
                                           [VList (map real [1..<length vals + 1]), VArray vals]
                                           [(''color'', VStr color), (''alpha'', VNum (2 / 3))]) w
                                 else w)
                        in case names of
                             None \<Rightarrow> (Inr ax, w)
                           | Some names \<Rightarrow>
                               if length vals \<noteq> length names
                               then (Inl (ValueError
                                            ''Length of names list must match nuber of bins''), w)
                               else (Inr ax,
                                     ax_call ax (Call ''set_xticklabels'' [VStrs names] []) w)))
              | _ \<Rightarrow> (Inl AttributeError, w)))"

section \<open>Kernel density plots\<close>

definition linspace :: "real \<Rightarrow> real \<Rightarrow> nat \<Rightarrow> real list" where
  "linspace a b n = map (\<lambda>i. a + real i * ((b - a) / real (n - 1))) [0..<n]"

text \<open>
  \<^verbatim>\<open>_kde_support(a, kde, npts)\<close>, on the elements of \<open>a\<close>. numpy's \<^verbatim>\<open>min\<close> and \<^verbatim>\<open>max\<close> of
  an array with no element raise ValueError.
\<close>

definition zero_size :: error where
  "zero_size = ValueError ''zero-size array to reduction operation which has no identity''"

text \<open>
  \<^verbatim>\<open>stats.gaussian_kde(a)\<close>: scipy refuses a sample of fewer than two elements with a
  ValueError, before it estimates anything; on a larger sample the library answers, with
  a density or with an error of its own (a singular covariance, for one).
\<close>

definition multiple_elements :: error where
  "multiple_elements = ValueError ''`dataset` input should have multiple elements.''"

definition stats_gaussian_kde :: "libs \<Rightarrow> real list \<Rightarrow> error + (real \<Rightarrow> real)" where
  "stats_gaussian_kde L a =
     (if length a \<le> 1 then Inl multiple_elements else gaussian_kde L a)"

definition kde_support :: "real list \<Rightarrow> (real \<Rightarrow> real) \<Rightarrow> nat \<Rightarrow> error + real list" where
  "kde_support a kde npts =
     (if a = [] then Inl zero_size
      else
        (let lo = Min (set a);
             hi = Max (set a);
             spread = hi - lo;
             x = linspace (lo - spread) (hi + spread) (npts * 2);
             y = map kde x
         in if y = [] then Inl zero_size
            else Inr (filter (\<lambda>t. kde t > Max (set y) * (1 / 10000)) x)))"

record ndarray =
  shape :: "nat list"
  flat :: "real list"

definition as_pyval :: "ndarray \<Rightarrow> pyval" where
  "as_pyval a = VNd (shape a) (flat a)"

definition rugplot ::
  "libs \<Rightarrow> pyval \<Rightarrow> real option \<Rightarrow> kwargs \<Rightarrow> world \<Rightarrow> (error + nat) \<times> world" where
  "rugplot L a height kw w =
     (let ax = named_ax kw;
          kwargs = rest_kwargs kw;
          (ax, w) = (if ax = VNone then (case plt_subplot w of (n, w) \<Rightarrow> (VAxis n, w))
                     else (ax, w))
      in case ax of
           VAxis ax \<Rightarrow>
             (let (ymin, ymax) = get_ylim L (drawn w ax);
                  height = (case height of
                              None \<Rightarrow>
                                (let (ymin, ymax) = get_ylim L (drawn w ax);
                                     yrange = ymax - ymin
                                 in yrange * 0.05)
                            | Some h \<Rightarrow> h)
              in (Inr ax,
                  ax_call ax (Call ''plot'' [VSeq [a, a], VList [ymin, ymin + height]] kwargs) w))
         | _ \<Rightarrow> (Inl AttributeError, w))"

definition kdeplot ::
  "libs \<Rightarrow> ndarray \<Rightarrow> nat \<Rightarrow> bool \<Rightarrow> nat \<Rightarrow> bool \<Rightarrow> bool \<Rightarrow> kwargs \<Rightarrow> world \<Rightarrow>
   (error + nat) \<times> world" where
  "kdeplot L a npts hist nbins rug shade kw w =
     (let (new_ax, w) = plt_subplot w;
          (ax, kwargs) = pop ''ax'' (VAxis new_ax) kw
      in case stats_gaussian_kde L (flat a) of
           Inl e \<Rightarrow> (Inl e, w)
         | Inr kde \<Rightarrow>
            (case kde_support (flat a) kde npts of
               Inl e \<Rightarrow> (Inl e, w)
             | Inr x \<Rightarrow>
             (let y = map kde x
              in case ax of
                   VAxis ax \<Rightarrow>
                     (let w = ax_call ax (Call ''plot'' [VList x, VList y] kwargs) w;
                          color = get_color L kwargs;
                          w = ax_call ax LineRemove w;
                          kwargs = snd (pop ''color'' VNone kwargs);
                          w = (if hist
                               then ax_call ax
                                      (Call ''hist'' [as_pyval a, VNum (real nbins)]
                                         [(''normed'', VBool True), (''color'', VStr color),
                                          (''alpha'', VNum 0.4)]) w
                               else w);
                          w = ax_call ax (Call ''plot'' [VList x, VList y]
                                            ((''color'', VStr color) # kwargs)) w
                      in case (if rug
                               then (if y = [] then (Some zero_size, w)
                                     else
                                       (let rug_height = Max (set y) * 0.05
                                        in case rugplot L (as_pyval a) (Some rug_height)
                                                  [(''ax'', VAxis ax), (''color'', VStr color),
                                                   (''alpha'', VNum 0.7), (''linewidth'', VNum 2)] w of
                                             (Inl e, w) \<Rightarrow> (Some e, w)
                                           | (Inr _, w) \<Rightarrow> (None, w)))
                               else (None, w)) of
                           (Some e, w) \<Rightarrow> (Inl e, w)
                         | (None, w) \<Rightarrow>
                             (Inr ax,
                              if shade
                              then ax_call ax
                                     (Call ''fill_between'' [VList x, VNum 0, VList y]
                                        [(''color'', VStr color), (''alpha'', VNum 0.25)]) w
                              else w))
                 | _ \<Rightarrow> (Inl AttributeError, w))))"

section \<open>violin\<close>

datatype vals = Arr ndarray | Seq "real list list"

datatype position = PosNone | PosNum real | PosSeq "real list"

definition column :: "ndarray \<Rightarrow> nat \<Rightarrow> real list" where
  "column v i = map (\<lambda>r. flat v ! (r * (shape v ! 1) + i)) [0..<shape v ! 0]"

text \<open>
  Lines 312 to 331 of violin: the input becomes a list of samples. A numeric array of one
  dimension has numpy scalars as elements, which have a \<^verbatim>\<open>shape\<close> and no \<^verbatim>\<open>__len__\<close>:
  it goes through \<^verbatim>\<open>list(vals)\<close> and then \<^verbatim>\<open>[vals]\<close>, one sample. A sample taken from
  an array with one row keeps its two dimensions in Python; the model holds its elements.
  \<^verbatim>\<open>vals[0]\<close> raises IndexError where there is no first element.
\<close>

definition violin_vals :: "vals \<Rightarrow> error + real list list" where
  "violin_vals vals =
     (case vals of
        Arr v \<Rightarrow>
          (if length (shape v) = 1 then
             (if flat v = [] then Inl IndexError else Inr [flat v])
           else if length (shape v) = 2 then
             (let nr = shape v ! 0; nc = shape v ! 1
              in if nr = 1 then Inr [flat v]
                 else if nc = 1 then Inr [flat v]
                 else if nc = 0 then Inl IndexError
                 else Inr (map (\<lambda>i. column v i) [0..<nc]))
           else Inl (ValueError ''Input x can have no more than 2 dimensions''))
      | Seq vs \<Rightarrow> (if vs = [] then Inl IndexError else Inr vs))"

definition arange :: "real \<Rightarrow> nat \<Rightarrow> real list" where
  "arange start n = map (\<lambda>i. start + real i) [0..<n]"

text \<open>
  Lines 345 to 349: the support \<open>y\<close> of the density of sample \<open>a\<close> and the density on
  it, scaled by \<^verbatim>\<open>scl = 1 / (dens.max() / (widths / 2))\<close>.
\<close>

definition violin_dens ::
  "libs \<Rightarrow> real list \<Rightarrow> real \<Rightarrow> error + (real list \<times> real \<times> real list)" where
  "violin_dens L a widths =
     (case stats_gaussian_kde L a of
        Inl e \<Rightarrow> Inl e
      | Inr kde \<Rightarrow>
          (case kde_support a kde 1000 of
             Inl e \<Rightarrow> Inl e
           | Inr y \<Rightarrow>
               (let dens = map kde y
                in if dens = [] then Inl zero_size
                   else
                     (let scl = 1 / (Max (set dens) / (widths / 2));
                          dens = map (\<lambda>d. d * scl) dens
                      in Inr (y, scl, dens)))))"

text \<open>
  The body of the loop over the samples (lines 344 to 368), for the violin at \<open>x\<close>. The
  density \<open>kde\<close> of line 345 is the one \<open>violin_dens\<close> scales.
\<close>

definition violin_one ::
  "libs \<Rightarrow> nat \<Rightarrow> string \<Rightarrow> string \<Rightarrow> real \<Rightarrow> real \<Rightarrow> real list \<Rightarrow> world \<Rightarrow>
   error option \<times> world" where
  "violin_one L ax color inner widths x a w =
     (case stats_gaussian_kde L a of
        Inl e \<Rightarrow> (Some e, w)
      | Inr kde \<Rightarrow>
        (case violin_dens L a widths of
           Inl e \<Rightarrow> (Some e, w)
         | Inr (y, scl, dens) \<Rightarrow>
             (let w = ax_call ax
                        (Call ''fill_betweenx''
                           [VList y, VList (map (\<lambda>d. x - d) dens), VList (map (\<lambda>d. x + d) dens)]
                           [(''alpha'', VNum 0.7), (''color'', VStr color)]) w;
                  w = (if inner = ''box'' then
                         (let w = fold (\<lambda>quant.
                                     ax_call ax
                                       (Call ''plot''
                                          [VList [x - kde quant * scl, x + kde quant * scl],
                                           VList [quant, quant], VStr gray]
                                          [(''linestyle'', VStr '':''), (''linewidth'', VNum 1.5)]))
                                   (sample_percentiles L a [25, 75]) w;
                              med = median L a
                          in ax_call ax
                               (Call ''plot''
                                  [VList [x - kde med * scl, x + kde med * scl],
                                   VList [med, med], VStr gray]
                                  [(''linestyle'', VStr ''--''), (''linewidth'', VNum 1.2)]) w)
                       else if inner = ''stick'' then
                         ax_call ax
                           (Call ''plot''
                              [VArray [map (\<lambda>t. x - kde t * scl) a, map (\<lambda>t. x + kde t * scl) a],
                               VArray [a, a], VStr gray]
                              [(''linewidth'', VNum 0.7), (''alpha'', VNum 0.7)]) w
                       else w)
              in (None,
                  fold (\<lambda>side.
                          ax_call ax
                            (Call ''plot'' [VList (map (\<lambda>d. side * d + x) dens), VList y, VStr gray]
                               [(''linewidth'', VNum 1)]))
                    [- 1, 1] w))))"

text \<open>
  \<^verbatim>\<open>for i, a in enumerate(vals)\<close>, from index \<open>i\<close> on: \<^verbatim>\<open>position[i]\<close> raises IndexError
  past the end of \<^verbatim>\<open>position\<close>.
\<close>

fun violin_loop ::
  "libs \<Rightarrow> nat \<Rightarrow> string \<Rightarrow> string \<Rightarrow> real \<Rightarrow> real list \<Rightarrow> nat \<Rightarrow> real list list \<Rightarrow> world \<Rightarrow>
   error option \<times> world" where
  "violin_loop L ax color inner widths position i [] w = (None, w)"
| "violin_loop L ax color inner widths position i (a # rest) w =
     (if i < length position then
        (case violin_one L ax color inner widths (position ! i) a w of
           (Some e, w) \<Rightarrow> (Some e, w)
         | (None, w) \<Rightarrow> violin_loop L ax color inner widths position (Suc i) rest w)
      else (Some IndexError, w))"

text \<open>
  \<^verbatim>\<open>np.transpose(vals)\<close> of a list of samples: the transposed matrix when the samples
  have one length, and the list itself (an array of objects) otherwise.
\<close>

definition np_transpose :: "real list list \<Rightarrow> real list list" where
  "np_transpose vs =
     (if list_all (\<lambda>v. length v = length (hd vs)) vs then transpose vs else vs)"

definition violin ::
  "libs \<Rightarrow> vals \<Rightarrow> string \<Rightarrow> position \<Rightarrow> real \<Rightarrow> bool \<Rightarrow> string list option \<Rightarrow> kwargs \<Rightarrow>
   world \<Rightarrow> (error + nat) \<times> world" where
  "violin L vals inner position widths join_rm names kw w =
     (let (new_ax, w) = plt_subplot w;
          (ax, kwargs) = pop ''ax'' (VAxis new_ax) kw
      in case violin_vals vals of
           Inl e \<Rightarrow> (Inl e, w)
         | Inr vals \<Rightarrow>
             (case ax of
                VAxis ax \<Rightarrow>
                  (case vals of
                     [] \<Rightarrow> (Inl IndexError, w)
                   | v0 # _ \<Rightarrow>
                       (let w = ax_call ax (Call ''plot'' [VNum (mean L v0), VNum (mean L v0)] kwargs) w;
                            color = get_color L kwargs;
                            w = ax_call ax LineRemove w;
                            position =
                              (case position of
                                 PosNone \<Rightarrow> arange 1 (length vals)
                               | PosNum p \<Rightarrow> arange p (length vals)
                               | PosSeq ps \<Rightarrow> ps)
                        in case violin_loop L ax color inner widths position 0 vals w of
                             (Some e, w) \<Rightarrow> (Inl e, w)
                           | (None, w) \<Rightarrow>
                               (let w = (if join_rm
                                         then ax_call ax
                                                (Call ''plot''
                                                   [VList (map real [1..<length (np_transpose vals) + 1]),
                                                    VArray (np_transpose vals)]
                                                   [(''color'', VStr color), (''alpha'', VNum (2 / 3))]) w
                                         else w);
                                    w = ax_call ax (Call ''set_xticks'' [VList position] []) w
                                in case names of
                                     None \<Rightarrow>
                                       (if position = [] then (Inl IndexError, w)
                                        else (Inr ax,
                                              ax_call ax
                                                (Call ''set_xlim''
                                                   [VNum (hd position - 0.5),
                                                    VNum (last position + 0.5)] []) w))
                                   | Some names \<Rightarrow>
                                       if length vals \<noteq> length names
                                       then (Inl (ValueError
                                                    ''Length of names list must match nuber of bins''), w)
                                       else
                                         (let w = ax_call ax
                                                    (Call ''set_xticklabels'' [VStrs names] []) w
                                          in if position = [] then (Inl IndexError, w)
                                             else (Inr ax,
                                                   ax_call ax
                                                     (Call ''set_xlim''
                                                        [VNum (hd position - 0.5),
                                                         VNum (last position + 0.5)] []) w)))))
              | _ \<Rightarrow> (Inl AttributeError, w)))"

section \<open>corrplot and symmatplot\<close>

definition triu_indices :: "nat \<Rightarrow> nat \<Rightarrow> (nat \<times> nat) list" where
  "triu_indices n k = concat (map (\<lambda>i. map (\<lambda>j. (i, j)) [i + k..<n]) [0..<n])"

text \<open>\<^verbatim>\<open>m[idx]\<close> for a list of index pairs, and \<^verbatim>\<open>m[i, j]\<close>.\<close>

definition gather :: "real list list \<Rightarrow> (nat \<times> nat) list \<Rightarrow> error + real list" where
  "gather m idx =
     (if list_all (\<lambda>(i, j). i < length m \<and> j < length (m ! i)) idx
      then Inr (map (\<lambda>(i, j). m ! i ! j) idx)
      else Inl IndexError)"

definition mat_at :: "real list list \<Rightarrow> nat \<Rightarrow> nat \<Rightarrow> error + real" where
  "mat_at m i j = (if i < length m \<and> j < length (m ! i) then Inr (m ! i ! j) else Inl IndexError)"

definition py_len :: "pyval \<Rightarrow> error + nat" where
  "py_len v =
     (case v of
        VStr s \<Rightarrow> Inr (length s)
      | VList xs \<Rightarrow> Inr (length xs)
      | VArray xs \<Rightarrow> Inr (length xs)
      | VStrs xs \<Rightarrow> Inr (length xs)
      | VSeq xs \<Rightarrow> Inr (length xs)
      | VDict d \<Rightarrow> Inr (length d)
      | VNd sh xs \<Rightarrow> (case sh of [] \<Rightarrow> Inl TypeError | n # _ \<Rightarrow> Inr n)
      | _ \<Rightarrow> Inl TypeError)"

text \<open>\<^verbatim>\<open>vmin, vmax = v\<close> for a value of length 2.\<close>

definition unpack2 :: "pyval \<Rightarrow> pyval \<times> pyval" where
  "unpack2 v =
     (case v of
        VStr s \<Rightarrow> (VStr [s ! 0], VStr [s ! 1])
      | VList xs \<Rightarrow> (VNum (xs ! 0), VNum (xs ! 1))
      | VArray xs \<Rightarrow> (VList (xs ! 0), VList (xs ! 1))
      | VStrs xs \<Rightarrow> (VStr (xs ! 0), VStr (xs ! 1))
      | VSeq xs \<Rightarrow> (xs ! 0, xs ! 1)
      | VDict d \<Rightarrow> (VStr (fst (d ! 0)), VStr (fst (d ! 1)))
      | VNd sh xs \<Rightarrow> (VNd (tl sh) (take (prod_list (tl sh)) xs),
                       VNd (tl sh) (take (prod_list (tl sh)) (drop (prod_list (tl sh)) xs)))
      | _ \<Rightarrow> (VNone, VNone))"

text \<open>A \<^verbatim>\<open>for\<close> loop whose body may raise.\<close>

fun for_each ::
  "('a \<Rightarrow> world \<Rightarrow> error option \<times> world) \<Rightarrow> 'a list \<Rightarrow> world \<Rightarrow> error option \<times> world" where
  "for_each body [] w = (None, w)"
| "for_each body (x # xs) w =
     (case body x w of
        (Some e, w) \<Rightarrow> (Some e, w)
      | (None, w) \<Rightarrow> for_each body xs w)"

text \<open>
  Lines 442 to 451 of symmatplot. \<^verbatim>\<open>plotmat\<close> is the matrix with its upper triangle,
  diagonal included, set to NaN, which needs \<open>nvars\<close> columns in each of the \<open>nvars\<close>
  rows. \<^verbatim>\<open>np.nanmax\<close> raises ValueError on an array of no element and yields NaN when
  every element is NaN.
\<close>

definition plotmat :: "real list list \<Rightarrow> pyval list list" where
  "plotmat mat =
     map (\<lambda>i. map (\<lambda>j. if i \<le> j \<and> j < length mat then VNaN else VNum (mat ! i ! j))
                 [0..<length (mat ! i)])
       [0..<length mat]"

definition not_nan :: "pyval list list \<Rightarrow> real list" where
  "not_nan m = concat (map (\<lambda>row. concat (map (\<lambda>v. case v of VNum x \<Rightarrow> [x] | _ \<Rightarrow> []) row)) m)"

definition symmat_range :: "real list list \<Rightarrow> pyval \<Rightarrow> error + pyval \<times> pyval" where
  "symmat_range mat cmap_range =
     (if cmap_range = VNone then
        (if concat (plotmat mat) = [] then Inl zero_size
         else if not_nan (plotmat mat) = [] then Inr (VNaN, VNaN)
         else Inr (VNum (Min (set (not_nan (plotmat mat))) * 1.15),
                   VNum (Max (set (not_nan (plotmat mat))) * 1.15)))
      else
        (case py_len cmap_range of
           Inl e \<Rightarrow> Inl e
         | Inr n \<Rightarrow>
             if n = 2 then Inr (unpack2 cmap_range)
             else Inl (ValueError ''cmap_range argument not understood'')))"

definition center :: kwargs where
  "center = [(''ha'', VStr ''center''), (''va'', VStr ''center'')]"

definition symmatplot ::
  "libs \<Rightarrow> real list list \<Rightarrow> real list list option \<Rightarrow> string list option \<Rightarrow> pyval \<Rightarrow> pyval \<Rightarrow>
   bool \<Rightarrow> kwargs \<Rightarrow> world \<Rightarrow> (error + nat) \<times> world" where
  "symmatplot L mat p_mat names cmap cmap_range cbar kw w =
     (let (new_ax, w) = plt_subplot w;
          (ax, kwargs) = pop ''ax'' (VAxis new_ax) kw;
          nvars = length mat
      in if \<not> list_all (\<lambda>row. nvars \<le> length row) mat then (Inl IndexError, w)
         else
           (case symmat_range mat cmap_range of
              Inl e \<Rightarrow> (Inl e, w)
            | Inr (vmin, vmax) \<Rightarrow>
                (case ax of
                   VAxis ax \<Rightarrow>
                     (case kw_call ax ''matshow'' [VSeq (map VSeq (plotmat mat))]
                             [(''cmap'', cmap), (''vmin'', vmin), (''vmax'', vmax)] kwargs w of
                        (Some e, w) \<Rightarrow> (Inl e, w)
                      | (None, w) \<Rightarrow>
                          (let w = (if cbar then plt_colorbar ax w else w);
                               p_mat = (case p_mat of
                                          None \<Rightarrow> replicate nvars (replicate nvars 1)
                                        | Some p \<Rightarrow> p)
                           in case for_each
                                     (\<lambda>(i, j) w.
                                        case mat_at mat i j of
                                          Inl e \<Rightarrow> (Some e, w)
                                        | Inr val \<Rightarrow>
                                            (case mat_at p_mat i j of
                                               Inl e \<Rightarrow> (Some e, w)
                                             | Inr p \<Rightarrow>
                                                 (None,
                                                  ax_call ax
                                                    (Call ''text''
                                                       [VNum (real j), VNum (real i),
                                                        VStr (format L ''\<newline>%.3g\<newline>%s''
                                                                [VNum val, VStr (sig_stars L p)])]
                                                       [(''fontdict'', VDict center)]) w)))
                                     (triu_indices nvars 1) w of
                                (Some e, w) \<Rightarrow> (Inl e, w)
                              | (None, w) \<Rightarrow>
                                  (let names = (case names of
                                                  None \<Rightarrow> map (\<lambda>i. format L ''var%d'' [VNum (real i)])
                                                            [0..<nvars]
                                                | Some ns \<Rightarrow> ns);
                                       w = ax_calls ax
                                             (map (\<lambda>(i, name).
                                                     Call ''text'' [VNum (real i), VNum (real i), VStr name]
                                                       [(''fontdict'',
                                                         VDict (center @ [(''weight'', VStr ''bold'')]))])
                                                (enumerate 0 names)) w;
                                       ticks = linspace 0.5 (real nvars - 0.5) nvars;
                                       w = ax_call ax (Call ''set_xticks'' [VList ticks] []) w;
                                       w = ax_call ax (Call ''set_yticks'' [VList ticks] []) w;
                                       w = ax_call ax (Call ''set_xticklabels'' [VSeq []] []) w;
                                       w = ax_call ax (Call ''set_yticklabels'' [VSeq []] []) w;
                                       w = ax_call ax (Call ''grid'' [VBool True]
                                                         [(''linestyle'', VStr ''-'')]) w
                                   in (Inr ax, w))))
                 | _ \<Rightarrow> (Inl AttributeError, w))))"

definition corrplot ::
  "libs \<Rightarrow> real list list \<Rightarrow> string list option \<Rightarrow> bool \<Rightarrow> string \<Rightarrow> bool \<Rightarrow> pyval \<Rightarrow> pyval \<Rightarrow>
   bool \<Rightarrow> kwargs \<Rightarrow> world \<Rightarrow> (error + nat) \<times> world" where
  "corrplot L data names stars sig_tail sig_corr cmap cmap_range cbar kw w =
     (let corrmat = corrcoef L data;
          p_mat = (if stars then Some (randomize_corrmat L data sig_tail sig_corr) else None)
      in case (if cmap_range = VNone then
                 (case gather corrmat (triu_indices (length data) 1) of
                    Inl e \<Rightarrow> Inl e
                  | Inr rs \<Rightarrow>
                      if rs = [] then Inl zero_size
                      else
                        (let vmax = min 1 (Max (set (map abs rs)) * 1.15);
                             vmin = - vmax
                         in Inr (VList [vmin, vmax])))
               else if cmap_range = VStr ''full'' then Inr (VList [- 1, 1])
               else Inr cmap_range) of
           Inl e \<Rightarrow> (Inl e, w)
         | Inr cmap_range \<Rightarrow> symmatplot L corrmat p_mat names cmap cmap_range cbar kw w)"

section \<open>Notions used by the properties\<close>

text \<open>
  The error styles that the documentation of tsplot lists.
\<close>

definition valid_styles :: "string list" where
  "valid_styles = [''ci_band'', ''ci_bars'', ''boot_traces'', ''obs_traces'', ''obs_points'']"

text \<open>
  \<open>extends a w w'\<close>: the world \<open>w'\<close> is \<open>w\<close> with further calls on axis \<open>a\<close> and no
  other change; \<open>extends1\<close>: with at least one further call.
\<close>

definition extends :: "nat \<Rightarrow> world \<Rightarrow> world \<Rightarrow> bool" where
  "extends a w w' = (\<exists>cs. w' = ax_calls a cs w)"

definition extends1 :: "nat \<Rightarrow> world \<Rightarrow> world \<Rightarrow> bool" where
  "extends1 a w w' = (\<exists>cs. cs \<noteq> [] \<and> w' = ax_calls a cs w)"

text \<open>
  \<^verbatim>\<open>ax.plot(x, y)\<close> with a matrix \<open>y\<close> draws one line for each column of \<open>y\<close>.
  \<open>boot_lines c\<close> is the number of lines of a call that plots a matrix in the style of
  the bootstrap traces (\<^verbatim>\<open>alpha=0.25, linewidth=0.25\<close> after the colour), and 0 for any
  other call.
\<close>

definition n_columns :: "real list list \<Rightarrow> nat" where
  "n_columns y = (case y of [] \<Rightarrow> 0 | row # _ \<Rightarrow> length row)"

definition boot_lines :: "call \<Rightarrow> nat" where
  "boot_lines c =
     (case c of
        Call m args kw \<Rightarrow>
          (if m = ''plot'' \<and> length args = 2 \<and>
              tl kw = [(''alpha'', VNum 0.25), (''linewidth'', VNum 0.25)]
           then (case args ! 1 of VArray y \<Rightarrow> n_columns y | _ \<Rightarrow> 0)
           else 0)
      | _ \<Rightarrow> 0)"

text \<open>\<open>extends_by a c w w'\<close>: the further calls on axis \<open>a\<close> include the call \<open>c\<close>.\<close>

definition extends_by :: "nat \<Rightarrow> call \<Rightarrow> world \<Rightarrow> world \<Rightarrow> bool" where
  "extends_by a c w w' = (\<exists>cs. c \<in> set cs \<and> w' = ax_calls a cs w)"

text \<open>
  \<open>touches_one_axis w w'\<close>: from \<open>w\<close> to \<open>w'\<close> the calls of one axis grew and the calls
  of every other axis are the same.
\<close>

definition touches_one_axis :: "world \<Rightarrow> world \<Rightarrow> bool" where
  "touches_one_axis w w' = (\<exists>a cs. drawn w' = (drawn w)(a := drawn w a @ cs))"

text \<open>
  A world whose only axis is the subplot 111 of pyplot's current figure, with one line
  drawn on it already.
\<close>

definition current_axis :: world where
  "current_axis =
     \<lparr>drawn = (\<lambda>_. [])(0 := [Call ''plot'' [VList [0, 1], VList [1, 0]] []]),
      fig111 = Some 0, next_ax = 1, colorbars = []\<rparr>"

text \<open>A matrix of \<open>n\<close> rows and \<open>n\<close> columns.\<close>

definition square :: "nat \<Rightarrow> real list list \<Rightarrow> bool" where
  "square n m = (length m = n \<and> list_all (\<lambda>row. length row = n) m)"

text \<open>
  Collaborators that answer with constants: the bootstrap repeats the central estimate
  \<open>n_boot\<close> times, the density estimate is 1 everywhere unless the sample is constant
  (the covariance is then singular), two variables are uncorrelated, and every p value
  is 1.
\<close>

definition unit_libs :: libs where
  "unit_libs =
     \<lparr>bootstrap = (\<lambda>d n s f. replicate n (f d)),
      percentiles = (\<lambda>d ci. ([], [])),
      sample_percentiles = (\<lambda>a q. q),
      ci_to_errsize = (\<lambda>cis c. []),
      get_color = (\<lambda>kw. ''b''),
      get_xlim = (\<lambda>cs. (0, 1)),
      get_ylim = (\<lambda>cs. (0, 1)),
      polyfit = (\<lambda>x y. (0, 0)),
      sig_stars = (\<lambda>p. []),
      format = (\<lambda>s args. s),
      gaussian_kde = (\<lambda>a. if list_all (\<lambda>v. v = hd a) a then Inl LinAlgError else Inr (\<lambda>t. 1)),
      mean = (\<lambda>a. 0),
      median = (\<lambda>a. 0),
      corrcoef = (\<lambda>d. [[1, 0], [0, 1]]),
      randomize_corrmat = (\<lambda>d t c. [[1, 1], [1, 1]]),
      artists = (\<lambda>s d. 0)\<rparr>"

text \<open>The error of the names check in boxplot and violin.\<close>

definition names_error :: error where
  "names_error = ValueError ''Length of names list must match nuber of bins''"

text \<open>A world with one axis, made outside pyplot, and no current figure.\<close>

definition one_axis :: world where
  "one_axis = \<lparr>drawn = (\<lambda>_. []), fig111 = None, next_ax = 1, colorbars = []\<rparr>"

section \<open>Calls on an axis\<close>

lemma ax_call_calls: "ax_call a c w = ax_calls a [c] w"
  by (simp add: ax_call_def ax_calls_def)

lemma ax_calls_calls: "ax_calls a cs (ax_calls a ds w) = ax_calls a (ds @ cs) w"
  by (simp add: ax_calls_def)

lemma ax_calls_nil: "ax_calls a [] w = w"
  by (simp add: ax_calls_def)

lemma drawn_ax_calls: "drawn (ax_calls a cs w) = (drawn w)(a := drawn w a @ cs)"
  by (simp add: ax_calls_def)

lemma ax_calls_fields:
  "fig111 (ax_calls a cs w) = fig111 w"
  "next_ax (ax_calls a cs w) = next_ax w"
  "colorbars (ax_calls a cs w) = colorbars w"
  by (simp_all add: ax_calls_def)

lemma plt_subplot_drawn: "drawn (snd (plt_subplot w)) = drawn w"
  by (simp add: plt_subplot_def split: option.splits)

lemma plt_subplot_colorbars: "colorbars (snd (plt_subplot w)) = colorbars w"
  by (simp add: plt_subplot_def split: option.splits)

lemma extends_refl: "extends a w w"
  unfolding extends_def using ax_calls_nil[of a w] by metis

lemma extends_calls: "extends a w w1 \<Longrightarrow> extends a w (ax_calls a cs w1)"
  unfolding extends_def using ax_calls_calls by metis

lemma extends_call: "extends a w w1 \<Longrightarrow> extends a w (ax_call a c w1)"
  unfolding ax_call_calls by (rule extends_calls)

lemma extends_trans: "extends a w w1 \<Longrightarrow> extends a w1 w2 \<Longrightarrow> extends a w w2"
  unfolding extends_def using ax_calls_calls by metis

lemma extends1_call: "extends a w w1 \<Longrightarrow> extends1 a w (ax_call a c w1)"
  unfolding extends_def extends1_def ax_call_calls
  by (metis ax_calls_calls append_is_Nil_conv not_Cons_self2)

lemma extends1_then: "extends1 a w w1 \<Longrightarrow> extends a w1 w2 \<Longrightarrow> extends1 a w w2"
  unfolding extends_def extends1_def
  by (metis ax_calls_calls append_is_Nil_conv)

lemma extends1_extends: "extends1 a w w1 \<Longrightarrow> extends a w w1"
  unfolding extends_def extends1_def by blast

lemma extends_kw_call: "extends a w w1 \<Longrightarrow> extends a w (snd (kw_call a m args ex kw w1))"
  by (simp add: kw_call_def extends_call)

lemma extends_by_call: "extends a w w1 \<Longrightarrow> extends_by a c w (ax_call a c w1)"
proof -
  assume "extends a w w1"
  then obtain cs where "w1 = ax_calls a cs w" unfolding extends_def by blast
  then have "ax_call a c w1 = ax_calls a (cs @ [c]) w"
    by (simp add: ax_call_calls ax_calls_calls)
  then show ?thesis unfolding extends_by_def by (intro exI[of _ "cs @ [c]"]) simp
qed

lemma extends_by_then: "extends_by a c w w1 \<Longrightarrow> extends a w1 w2 \<Longrightarrow> extends_by a c w w2"
proof -
  assume "extends_by a c w w1" and "extends a w1 w2"
  then obtain cs ds where "c \<in> set cs" "w1 = ax_calls a cs w" "w2 = ax_calls a ds w1"
    unfolding extends_def extends_by_def by blast
  then have "c \<in> set (cs @ ds) \<and> w2 = ax_calls a (cs @ ds) w"
    by (simp add: ax_calls_calls)
  then show ?thesis unfolding extends_by_def by blast
qed

lemma extends_by_after: "extends a w w1 \<Longrightarrow> extends_by a c w1 w2 \<Longrightarrow> extends_by a c w w2"
proof -
  assume "extends a w w1" and "extends_by a c w1 w2"
  then obtain cs ds where "c \<in> set ds" "w1 = ax_calls a cs w" "w2 = ax_calls a ds w1"
    unfolding extends_def extends_by_def by blast
  then have "c \<in> set (cs @ ds) \<and> w2 = ax_calls a (cs @ ds) w"
    by (simp add: ax_calls_calls)
  then show ?thesis unfolding extends_by_def by blast
qed

lemma extends_by_extends1: "extends_by a c w w' \<Longrightarrow> extends1 a w w'"
proof -
  assume "extends_by a c w w'"
  then obtain cs where "c \<in> set cs" "w' = ax_calls a cs w"
    unfolding extends_by_def by blast
  then have "cs \<noteq> [] \<and> w' = ax_calls a cs w" by auto
  then show ?thesis unfolding extends1_def by blast
qed

lemma extends_by_drawn:
  assumes "extends_by a c (snd (plt_subplot w)) w'"
  shows "\<exists>cs. drawn w' a = drawn w a @ cs \<and> c \<in> set cs"
  using assms by (auto simp: extends_by_def drawn_ax_calls plt_subplot_drawn)

lemma kw_call_None:
  "kw_call a m args ex kw w1 = (None, w2) \<Longrightarrow> w2 = ax_call a (Call m args (ex @ kw)) w1"
  by (simp add: kw_call_def split: if_splits)

lemma kw_call_Some: "kw_call a m args ex kw w1 = (Some e, w2) \<Longrightarrow> w2 = w1"
  by (simp add: kw_call_def split: if_splits)

lemma case_not_axis:
  "(\<And>a. v \<noteq> VAxis a) \<Longrightarrow> (case v of VAxis a \<Rightarrow> f a | _ \<Rightarrow> g) = g"
  by (cases v) auto

lemma map_of_rest_kwargs [simp]: "map_of (rest_kwargs kw) ''ax'' = None"
  unfolding rest_kwargs_def by (induction kw) auto

lemma pop_rest_kwargs [simp]: "pop ''ax'' d (rest_kwargs kw) = (d, rest_kwargs kw)"
  by (simp add: pop_def)

section \<open>tsplot: the error styles\<close>

lemma globals_plot_None: "globals_plot s = None \<longleftrightarrow> s \<notin> set valid_styles"
  by (simp add: globals_plot_def valid_styles_def)

lemma extends_plot_func:
  "globals_plot s = Some f \<Longrightarrow> extends a w w1 \<Longrightarrow> extends a w (f L a x data bd cd ci color w1)"
  by (auto simp: globals_plot_def plot_ci_band_def plot_ci_bars_def plot_boot_traces_def
      plot_obs_traces_def plot_obs_points_def Let_def extends_call split: if_splits prod.splits)

lemma extends_plot_styles:
  "extends a w w1 \<Longrightarrow> extends a w (snd (plot_styles L a x data bd cd ci color styles w1))"
proof (induction styles arbitrary: w1)
  case Nil
  then show ?case by simp
next
  case (Cons s styles)
  show ?case
  proof (cases "globals_plot s")
    case None
    then show ?thesis using Cons.prems by simp
  next
    case (Some f)
    then show ?thesis using Cons.IH[OF extends_plot_func[OF Some Cons.prems]] by simp
  qed
qed

lemma plot_styles_first_invalid:
  assumes "set pre \<subseteq> set valid_styles" and "bad \<notin> set valid_styles"
  shows "fst (plot_styles L a x data bd cd ci color (pre @ bad # post) w) =
           Some (ValueError (bad @ '' is not a valid err_style''))"
  using assms
proof (induction pre arbitrary: w)
  case Nil
  then have "globals_plot bad = None" by (simp add: globals_plot_None)
  then show ?case by simp
next
  case (Cons s pre)
  then obtain f where "globals_plot s = Some f"
    using globals_plot_None[of s] by (cases "globals_plot s") auto
  then show ?case using Cons by simp
qed

lemma first_invalid:
  assumes "s \<in> set styles" and "s \<notin> set valid_styles"
  shows "\<exists>pre bad post. styles = pre @ bad # post \<and> set pre \<subseteq> set valid_styles \<and>
           bad \<notin> set valid_styles"
  using assms
proof (induction styles)
  case Nil
  then show ?case by simp
next
  case (Cons t styles)
  show ?case
  proof (cases "t \<in> set valid_styles")
    case False
    then have "t # styles = [] @ t # styles \<and> set [] \<subseteq> set valid_styles" by simp
    then show ?thesis using False by blast
  next
    case True
    then have "s \<in> set styles" using Cons.prems by auto
    then obtain pre bad post where
      "styles = pre @ bad # post" "set pre \<subseteq> set valid_styles" "bad \<notin> set valid_styles"
      using Cons.IH Cons.prems(2) by blast
    then have "t # styles = (t # pre) @ bad # post \<and> set (t # pre) \<subseteq> set valid_styles"
      using True by simp
    then show ?thesis using \<open>bad \<notin> set valid_styles\<close> by blast
  qed
qed

lemma tsplot_style_error:
  assumes "fst (plot_styles L (fst (plt_subplot w)) x data (bootstrap L data n sm cf) (cf data)
             (percentiles L (bootstrap L data n sm cf) ci) (get_color L (rest_kwargs kw)) styles
             (ax_call (fst (plt_subplot w)) LineRemove
                (ax_call (fst (plt_subplot w))
                   (Call ''plot'' [VList x, VList (cf data)] (rest_kwargs kw))
                   (snd (plt_subplot w))))) = Some e"
  shows "fst (tsplot L x data styles ci cf n sm kw w) = Inl e"
proof -
  obtain w3 where "plot_styles L (fst (plt_subplot w)) x data (bootstrap L data n sm cf) (cf data)
             (percentiles L (bootstrap L data n sm cf) ci) (get_color L (rest_kwargs kw)) styles
             (ax_call (fst (plt_subplot w)) LineRemove
                (ax_call (fst (plt_subplot w))
                   (Call ''plot'' [VList x, VList (cf data)] (rest_kwargs kw))
                   (snd (plt_subplot w)))) = (Some e, w3)"
    using assms by (metis prod.collapse)
  then show ?thesis
    by (simp add: tsplot_def Let_def case_prod_beta)
qed

text \<open>
  C3. A call of tsplot whose \<^verbatim>\<open>err_style\<close> holds a name outside the documented five fails
  with ValueError, and the message names the first such style of the list.
\<close>

theorem tsplot_invalid_err_style:
  assumes "s \<in> set err_style" and "s \<notin> set valid_styles"
  shows "\<exists>pre bad post.
           err_style = pre @ bad # post \<and> set pre \<subseteq> set valid_styles \<and>
           bad \<notin> set valid_styles \<and>
           fst (tsplot L x data err_style ci central_func n_boot smooth kw w) =
             Inl (ValueError (bad @ '' is not a valid err_style''))"
proof -
  obtain pre bad post where
    d: "err_style = pre @ bad # post" "set pre \<subseteq> set valid_styles" "bad \<notin> set valid_styles"
    using first_invalid[OF assms] by blast
  have "fst (tsplot L x data err_style ci central_func n_boot smooth kw w) =
          Inl (ValueError (bad @ '' is not a valid err_style''))"
    unfolding d(1) by (rule tsplot_style_error) (rule plot_styles_first_invalid[OF d(2,3)])
  then show ?thesis using d by blast
qed

theorem tsplot_invalid_err_style_witness:
  "''ci_bar'' \<in> set [''ci_band'', ''ci_bar''] \<and> ''ci_bar'' \<notin> set valid_styles \<and>
   (\<forall>L. fst (tsplot L [0, 1] [[1, 2], [3, 4]] [''ci_band'', ''ci_bar''] (16, 84)
              (\<lambda>d. [2, 3]) 100 False [] one_axis) =
         Inl (ValueError ''ci_bar is not a valid err_style''))"
proof -
  have m: "''ci_bar'' \<in> set [''ci_band'', ''ci_bar'']" by simp
  have n: "''ci_bar'' \<notin> set valid_styles" by (simp add: valid_styles_def)
  have "fst (tsplot L [0, 1] [[1, 2], [3, 4]] [''ci_band'', ''ci_bar''] (16, 84)
              (\<lambda>d. [2, 3]) 100 False [] one_axis) =
         Inl (ValueError ''ci_bar is not a valid err_style'')" for L
  proof -
    from tsplot_invalid_err_style[OF m n, of L "[0, 1]" "[[1, 2], [3, 4]]" "(16, 84)"
        "\<lambda>d. [2, 3]" 100 False "[]" one_axis]
    obtain pre bad post where
      d: "[''ci_band'', ''ci_bar''] = pre @ bad # post" "bad \<notin> set valid_styles" and
      r: "fst (tsplot L [0, 1] [[1, 2], [3, 4]] [''ci_band'', ''ci_bar''] (16, 84)
              (\<lambda>d. [2, 3]) 100 False [] one_axis) =
            Inl (ValueError (bad @ '' is not a valid err_style''))"
      by (elim exE conjE)
    have "bad \<in> set (pre @ bad # post)" by simp
    then have "bad \<in> set [''ci_band'', ''ci_bar'']"
      unfolding d(1)[symmetric] .
    then have "bad = ''ci_bar''"
      using d(2) by (auto simp: valid_styles_def)
    then show ?thesis using r by simp
  qed
  then show ?thesis using m n by blast
qed

section \<open>violin: the dimensions of the input\<close>

text \<open>
  C5. A call of violin on an array of more than two dimensions fails with the ValueError
  of the input validation. Nothing has been drawn then: the only step before it is
  \<^verbatim>\<open>plt.subplot(111)\<close>, which leaves the calls of every axis as they were.
\<close>

theorem violin_more_than_two_dimensions:
  assumes "2 < length (shape v)"
  shows "violin L (Arr v) inner position widths join_rm names kw w =
           (Inl (ValueError ''Input x can have no more than 2 dimensions''), snd (plt_subplot w)) \<and>
         drawn (snd (plt_subplot w)) = drawn w"
proof -
  have "violin_vals (Arr v) = Inl (ValueError ''Input x can have no more than 2 dimensions'')"
    using assms by (simp add: violin_vals_def)
  then show ?thesis
    by (simp add: violin_def Let_def case_prod_beta plt_subplot_drawn)
qed

theorem violin_more_than_two_dimensions_witness:
  "2 < length (shape \<lparr>shape = [1, 1, 2], flat = [3, 4]\<rparr>) \<and>
   (\<forall>L. violin L (Arr \<lparr>shape = [1, 1, 2], flat = [3, 4]\<rparr>) ''box'' PosNone 0.3 False None []
           one_axis =
         (Inl (ValueError ''Input x can have no more than 2 dimensions''),
          one_axis\<lparr>fig111 := Some 1, next_ax := 2\<rparr>) \<and>
        drawn (one_axis\<lparr>fig111 := Some 1, next_ax := 2\<rparr>) = drawn one_axis)"
proof -
  have h: "2 < length (shape \<lparr>shape = [1, 1, 2], flat = [3, 4]\<rparr>)" by simp
  show ?thesis
    using violin_more_than_two_dimensions[OF h, of _ "''box''" PosNone "0.3" False None "[]" one_axis]
    by (simp add: plt_subplot_def one_axis_def)
qed

section \<open>tsplot: the axis\<close>

text \<open>
  Whatever tsplot is given, it works on the axis that \<^verbatim>\<open>plt.subplot(111)\<close> returned: it
  either raises, or returns that axis after at least one call on it.
\<close>

lemma tsplot_cases:
  obtains (error) e w' where
      "tsplot L x data styles ci cf n sm kw w = (Inl e, w')"
      "extends (fst (plt_subplot w)) (snd (plt_subplot w)) w'"
  | (ok) w' where
      "tsplot L x data styles ci cf n sm kw w = (Inr (fst (plt_subplot w)), w')"
      "extends1 (fst (plt_subplot w)) (snd (plt_subplot w)) w'"
proof -
  let ?a = "fst (plt_subplot w)"
  let ?w2 = "ax_call ?a LineRemove
                (ax_call ?a (Call ''plot'' [VList x, VList (cf data)] (rest_kwargs kw))
                   (snd (plt_subplot w)))"
  let ?ps = "plot_styles L ?a x data (bootstrap L data n sm cf) (cf data)
             (percentiles L (bootstrap L data n sm cf) ci) (get_color L (rest_kwargs kw)) styles ?w2"
  obtain eo w3 where ps: "?ps = (eo, w3)" by (cases ?ps)
  obtain ko w4 where kc: "kw_call ?a ''plot'' [VList x, VList (cf data)]
                  [(''color'', VStr (get_color L (rest_kwargs kw)))] (rest_kwargs kw) w3 = (ko, w4)"
    by (cases "kw_call ?a ''plot'' [VList x, VList (cf data)]
                  [(''color'', VStr (get_color L (rest_kwargs kw)))] (rest_kwargs kw) w3")
  have w2: "extends1 ?a (snd (plt_subplot w)) ?w2"
    by (rule extends1_call[OF extends_call[OF extends_refl]])
  have "extends ?a ?w2 (snd ?ps)" by (rule extends_plot_styles[OF extends_refl])
  then have w3: "extends1 ?a (snd (plt_subplot w)) w3"
    using extends1_then[OF w2] ps by simp
  have "extends ?a w3 (snd (kw_call ?a ''plot'' [VList x, VList (cf data)]
                  [(''color'', VStr (get_color L (rest_kwargs kw)))] (rest_kwargs kw) w3))"
    by (rule extends_kw_call[OF extends_refl])
  then have w4: "extends1 ?a (snd (plt_subplot w)) w4"
    using extends1_then[OF w3] kc by simp
  have res: "tsplot L x data styles ci cf n sm kw w =
      (case eo of Some e \<Rightarrow> (Inl e, w3)
       | None \<Rightarrow> (case ko of Some e \<Rightarrow> (Inl e, w4) | None \<Rightarrow> (Inr ?a, w4)))"
    by (simp add: tsplot_def Let_def case_prod_beta ps kc split: option.splits)
  show thesis
  proof (cases eo)
    case (Some e)
    then show thesis using res error[OF _ extends1_extends[OF w3]] by simp
  next
    case None
    show thesis
    proof (cases ko)
      case (Some e)
      then show thesis using res None error[OF _ extends1_extends[OF w4]] by simp
    next
      case ko: None
      then show thesis using res None ok[OF _ w4] by simp
    qed
  qed
qed

lemma plt_subplot_fresh:
  assumes "fig111 w \<noteq> Some a" and "a < next_ax w"
  shows "fst (plt_subplot w) \<noteq> a"
  using assms by (auto simp: plt_subplot_def split: option.splits)

lemma extends_drawn_other:
  assumes "extends b w w'" and "a \<noteq> b"
  shows "drawn w' a = drawn w a"
  using assms by (auto simp: extends_def drawn_ax_calls)

text \<open>
  C1. The claim is that every plotting function draws on the axis the caller supplies
  and returns it. tsplot does not: its signature binds \<^verbatim>\<open>ax\<close> to a parameter that the
  body overwrites with \<^verbatim>\<open>kwargs.pop("ax", plt.subplot(111))\<close>, and \<^verbatim>\<open>kwargs\<close> never
  holds the key. For an existing axis \<open>a\<close> that is not the subplot 111 of pyplot's
  current figure, a call \<^verbatim>\<open>tsplot(x, data, ax=a)\<close> never returns \<open>a\<close> and adds no call
  to it.
\<close>

theorem tsplot_ignores_supplied_axis:
  assumes "map_of kw ''ax'' = Some (VAxis a)" and "a < next_ax w" and "fig111 w \<noteq> Some a"
  shows "fst (tsplot L x data err_style ci central_func n_boot smooth kw w) \<noteq> Inr a \<and>
         drawn (snd (tsplot L x data err_style ci central_func n_boot smooth kw w)) a = drawn w a"
proof -
  have ne: "a \<noteq> fst (plt_subplot w)"
    using plt_subplot_fresh[OF assms(3,2)] by simp
  show ?thesis
  proof (cases rule: tsplot_cases[of L x data err_style ci central_func n_boot smooth kw w])
    case (error e w')
    then show ?thesis
      using extends_drawn_other[OF error(2) ne] by (simp add: plt_subplot_drawn)
  next
    case (ok w')
    then show ?thesis
      using extends_drawn_other[OF extends1_extends[OF ok(2)] ne] ne by (simp add: plt_subplot_drawn)
  qed
qed

theorem tsplot_ignores_supplied_axis_witness:
  "map_of [(''ax'', VAxis 0)] ''ax'' = Some (VAxis 0) \<and> 0 < next_ax one_axis \<and>
   fig111 one_axis \<noteq> Some 0 \<and>
   (\<forall>L. fst (tsplot L [0, 1] [[1, 2], [3, 4]] [''ci_band''] (16, 84) (\<lambda>d. [2, 3]) 100 False
              [(''ax'', VAxis 0)] one_axis) = Inr 1 \<and>
        drawn (snd (tsplot L [0, 1] [[1, 2], [3, 4]] [''ci_band''] (16, 84) (\<lambda>d. [2, 3]) 100 False
              [(''ax'', VAxis 0)] one_axis)) 0 = [])"
proof -
  have h: "map_of [(''ax'', VAxis 0)] ''ax'' = Some (VAxis 0)" "0 < next_ax one_axis"
    "fig111 one_axis \<noteq> Some 0"
    by (simp_all add: one_axis_def)
  have r: "fst (tsplot L [0, 1] [[1, 2], [3, 4]] [''ci_band''] (16, 84) (\<lambda>d. [2, 3]) 100 False
              [(''ax'', VAxis 0)] one_axis) = Inr 1" for L
    by (simp add: tsplot_def Let_def case_prod_beta plt_subplot_def one_axis_def globals_plot_def
        kw_call_def rest_kwargs_def pop_def plot_ci_band_def ax_call_def)
  have "drawn (snd (tsplot L [0, 1] [[1, 2], [3, 4]] [''ci_band''] (16, 84) (\<lambda>d. [2, 3]) 100 False
              [(''ax'', VAxis 0)] one_axis)) 0 = []" for L
    using tsplot_ignores_supplied_axis[OF h(1,2,3), of L "[0, 1]" "[[1, 2], [3, 4]]" "[''ci_band'']"
        "(16, 84)" "\<lambda>d. [2, 3]" 100 False]
    by (simp add: one_axis_def)
  then show ?thesis using h r by blast
qed

section \<open>tsplot: the bootstrap traces\<close>

lemma n_columns_transpose: "n_columns (transpose xs) \<le> length xs"
proof (cases "transpose xs")
  case Nil
  then show ?thesis by (simp add: n_columns_def)
next
  case (Cons row rows)
  then have "0 < length (transpose xs)" by simp
  then have "transpose xs ! 0 = map (\<lambda>ys. ys ! 0) (filter (\<lambda>ys. 0 < length ys) xs)"
    by (rule nth_transpose)
  then have "row = map (\<lambda>ys. ys ! 0) (filter (\<lambda>ys. 0 < length ys) xs)"
    using Cons by simp
  then have "length row \<le> length xs" by simp
  then show ?thesis using Cons by (simp add: n_columns_def)
qed

lemma boot_lines_plot_func:
  assumes "globals_plot s = Some f"
  shows "\<exists>c. f L a x data bd cd ci color w = ax_call a c w \<and>
             boot_lines c \<le> (if s = ''boot_traces'' then 250 else 0)"
proof -
  have k: "n_columns (transpose (take 250 bd)) \<le> 250"
    using n_columns_transpose[of "take 250 bd"] by simp
  show ?thesis
    using assms k
    by (auto simp: globals_plot_def plot_ci_band_def plot_ci_bars_def plot_boot_traces_def
        plot_obs_traces_def plot_obs_points_def boot_lines_def case_prod_beta split: if_splits)
qed

lemma drawn_ax_call: "drawn (ax_call a c w) a = drawn w a @ [c]"
  by (simp add: ax_call_def)

lemma boot_lines_plot_styles:
  "sum_list (map boot_lines (drawn (snd (plot_styles L a x data bd cd ci color styles w)) a)) \<le>
   sum_list (map boot_lines (drawn w a)) + 250 * count_list styles ''boot_traces''"
proof (induction styles arbitrary: w)
  case Nil
  then show ?case by simp
next
  case (Cons s styles)
  show ?case
  proof (cases "globals_plot s")
    case None
    then show ?thesis by simp
  next
    case (Some f)
    obtain c where c: "f L a x data bd cd ci color w = ax_call a c w"
      "boot_lines c \<le> (if s = ''boot_traces'' then 250 else 0)"
      using boot_lines_plot_func[OF Some] by blast
    have "sum_list (map boot_lines (drawn (snd (plot_styles L a x data bd cd ci color styles
              (ax_call a c w))) a)) \<le>
          sum_list (map boot_lines (drawn (ax_call a c w) a)) + 250 * count_list styles ''boot_traces''"
      by (rule Cons.IH)
    then show ?thesis using Some c by (auto simp: drawn_ax_call split: if_splits)
  qed
qed

lemma boot_traces_counted:
  assumes "bd \<noteq> []" and "list_all (\<lambda>row. row \<noteq> []) bd"
  shows "boot_lines (Call ''plot'' [VList x, VArray (transpose (take 250 bd))]
           [(''color'', VStr color), (''alpha'', VNum 0.25), (''linewidth'', VNum 0.25)]) =
         min 250 (length bd)"
proof -
  have ne: "filter (\<lambda>ys. 0 < length ys) (take 250 bd) = take 250 bd"
    using assms(2) by (auto simp: list_all_iff filter_id_conv dest: in_set_takeD)
  have "take 250 bd \<noteq> []" using assms(1) by simp
  then obtain r rs where rs: "take 250 bd = r # rs" by (cases "take 250 bd") auto
  then have "r \<in> set bd" by (metis in_set_takeD list.set_intros(1))
  then have "r \<noteq> []" using assms(2) by (auto simp: list_all_iff)
  then have "0 < length (transpose (take 250 bd))"
    using rs by (cases r) (auto simp: length_transpose max_def)
  then have "transpose (take 250 bd) ! 0 = map (\<lambda>ys. ys ! 0) (take 250 bd)"
    using nth_transpose[of 0 "take 250 bd"] ne by simp
  moreover obtain t ts where "transpose (take 250 bd) = t # ts"
    using \<open>0 < length (transpose (take 250 bd))\<close> by (cases "transpose (take 250 bd)") auto
  ultimately have "n_columns (transpose (take 250 bd)) = length (take 250 bd)"
    by (simp add: n_columns_def)
  then show ?thesis by (simp add: boot_lines_def min.commute)
qed

lemma boot_traces_listed_twice:
  assumes "bootstrap L data n_boot smooth central_func \<noteq> []"
    and "list_all (\<lambda>row. row \<noteq> []) (bootstrap L data n_boot smooth central_func)"
  shows "sum_list (map boot_lines
           (drawn (snd (tsplot L x data [''boot_traces'', ''boot_traces''] ci central_func n_boot
                          smooth [] one_axis)) 1)) =
         2 * min 250 (length (bootstrap L data n_boot smooth central_func))"
proof -
  define bd where "bd = bootstrap L data n_boot smooth central_func"
  define c where "c = get_color L []"
  let ?b = "Call ''plot'' [VList x, VArray (transpose (take 250 bd))]
              [(''color'', VStr c), (''alpha'', VNum 0.25), (''linewidth'', VNum 0.25)]"
  have b: "boot_lines ?b = min 250 (length bd)"
    using assms unfolding bd_def[symmetric] by (rule boot_traces_counted)
  have "drawn (snd (tsplot L x data [''boot_traces'', ''boot_traces''] ci central_func n_boot
                      smooth [] one_axis)) 1 =
        [Call ''plot'' [VList x, VList (central_func data)] [], LineRemove, ?b, ?b,
         Call ''plot'' [VList x, VList (central_func data)] [(''color'', VStr c)]]"
    unfolding bd_def c_def
    by (simp add: tsplot_def Let_def case_prod_beta plt_subplot_def one_axis_def named_ax_def
        get_def rest_kwargs_def pop_def globals_plot_def plot_boot_traces_def kw_call_def
        ax_call_def)
  moreover have "n_columns (transpose (take 250 bd)) = min 250 (length bd)"
    using b by (simp add: boot_lines_def)
  ultimately show ?thesis
    unfolding bd_def[symmetric] by (simp add: boot_lines_def)
qed

text \<open>
  C8, as stated, fails for a call that lists the style twice: with 300 bootstrap samples
  each listing draws 250 traces, 500 in all, on an axis that held none.
\<close>

theorem boot_traces_listed_twice_counterexample:
  "sum_list (map boot_lines
     (drawn (snd (tsplot unit_libs [0, 1] [[1, 2]] [''boot_traces'', ''boot_traces''] (16, 84) hd
                    300 False [] one_axis)) 1)) = 500 \<and>
   drawn one_axis 1 = []"
proof -
  have bd: "bootstrap unit_libs [[1, 2]] 300 False hd = replicate 300 [1, 2]"
    by (simp add: unit_libs_def)
  have "bootstrap unit_libs [[1, 2]] 300 False hd \<noteq> []"
    "list_all (\<lambda>row. row \<noteq> []) (bootstrap unit_libs [[1, 2]] 300 False hd)"
    "length (bootstrap unit_libs [[1, 2]] 300 False hd) = 300"
    unfolding bd by (simp_all add: list_all_iff)
  then show ?thesis
    using boot_traces_listed_twice[of unit_libs "[[1, 2]]" 300 False hd "[0, 1]" "(16, 84)"]
    by (simp add: one_axis_def)
qed

text \<open>
  C8. What holds instead: tsplot draws bootstrap traces only through
  \<^verbatim>\<open>_plot_boot_traces\<close>, which plots \<^verbatim>\<open>boot_data[:250].T\<close>: at most 250 lines for each
  time the style is listed in \<^verbatim>\<open>err_style\<close>, whatever \<^verbatim>\<open>n_boot\<close> is, so at most 250
  for a call that lists the style once. The bound compares the axis after the call with
  the axis before it.
\<close>

theorem tsplot_boot_traces_250_per_listing:
  "sum_list (map boot_lines
     (drawn (snd (tsplot L x data err_style ci central_func n_boot smooth kw w))
        (fst (plt_subplot w)))) \<le>
   sum_list (map boot_lines (drawn w (fst (plt_subplot w)))) +
     250 * count_list err_style ''boot_traces''"
proof -
  let ?a = "fst (plt_subplot w)"
  let ?cd = "central_func data"
  let ?kw = "rest_kwargs kw"
  let ?w2 = "ax_call ?a LineRemove (ax_call ?a (Call ''plot'' [VList x, VList ?cd] ?kw)
               (snd (plt_subplot w)))"
  let ?ps = "plot_styles L ?a x data (bootstrap L data n_boot smooth central_func) ?cd
             (percentiles L (bootstrap L data n_boot smooth central_func) ci)
             (get_color L ?kw) err_style ?w2"
  let ?kc = "kw_call ?a ''plot'' [VList x, VList ?cd] [(''color'', VStr (get_color L ?kw))] ?kw
               (snd ?ps)"
  have w2: "sum_list (map boot_lines (drawn ?w2 ?a)) = sum_list (map boot_lines (drawn w ?a))"
    by (simp add: drawn_ax_call plt_subplot_drawn boot_lines_def)
  have w3: "sum_list (map boot_lines (drawn (snd ?ps) ?a)) \<le>
            sum_list (map boot_lines (drawn w ?a)) + 250 * count_list err_style ''boot_traces''"
    using boot_lines_plot_styles[of L ?a x data _ ?cd _ _ err_style ?w2] w2 by simp
  have w4: "sum_list (map boot_lines (drawn (snd ?kc) ?a)) =
            sum_list (map boot_lines (drawn (snd ?ps) ?a))"
    by (simp add: kw_call_def drawn_ax_call boot_lines_def)
  have "snd (tsplot L x data err_style ci central_func n_boot smooth kw w) = snd ?ps \<or>
        snd (tsplot L x data err_style ci central_func n_boot smooth kw w) = snd ?kc"
    by (cases ?ps; cases ?kc)
      (auto simp: tsplot_def Let_def case_prod_beta split: option.splits)
  then show ?thesis using w3 w4 by auto
qed

section \<open>violin: the scaled density\<close>

lemma kde_support_Inr:
  assumes "kde_support a kde npts = Inr y"
  obtains x where "x \<noteq> []" and "a \<noteq> []"
    and "y = filter (\<lambda>t. kde t > Max (set (map kde x)) * (1 / 10000)) x"
proof -
  define x where "x = linspace (Min (set a) - (Max (set a) - Min (set a)))
              (Max (set a) + (Max (set a) - Min (set a))) (npts * 2)"
  have "kde_support a kde npts =
          (if a = [] then Inl zero_size
           else if map kde x = [] then Inl zero_size
           else Inr (filter (\<lambda>t. kde t > Max (set (map kde x)) * (1 / 10000)) x))"
    unfolding kde_support_def Let_def x_def by (rule refl)
  then have "x \<noteq> [] \<and> a \<noteq> [] \<and> y = filter (\<lambda>t. kde t > Max (set (map kde x)) * (1 / 10000)) x"
    using assms by (simp split: if_splits)
  then show thesis using that by blast
qed

lemma kde_support_density:
  assumes "kde_support a kde npts = Inr y" and "t \<in> set y"
  shows "0 < kde t"
proof -
  obtain x where x: "x \<noteq> []" "y = filter (\<lambda>t. kde t > Max (set (map kde x)) * (1 / 10000)) x"
    using kde_support_Inr[OF assms(1)] by blast
  let ?M = "Max (set (map kde x))"
  have tx: "t \<in> set x" and big: "kde t > ?M * (1 / 10000)"
    using assms(2) unfolding x(2) by auto
  have "kde t \<le> ?M" using tx by (intro Max_ge) auto
  then have "?M * (1 / 10000) < ?M" using big by linarith
  then have "0 < ?M" by simp
  then have "0 < ?M * (1 / 10000)" by simp
  then show "0 < kde t" using big by linarith
qed

lemma scaled_density:
  fixes dens :: "real list" and widths :: real
  assumes "dens \<noteq> []" and "\<And>d. d \<in> set dens \<Longrightarrow> 0 < d"
  defines "scl \<equiv> 1 / (Max (set dens) / (widths / 2))"
  shows "widths / 2 \<in> set (map (\<lambda>d. d * scl) dens)"
    and "\<And>d. d \<in> set (map (\<lambda>d. d * scl) dens) \<Longrightarrow> \<bar>d\<bar> \<le> \<bar>widths / 2\<bar>"
    and "0 \<le> widths \<Longrightarrow> Max (set (map (\<lambda>d. d * scl) dens)) = widths / 2"
proof -
  let ?m = "Max (set dens)"
  have m_in: "?m \<in> set dens" using assms(1) by (intro Max_in) auto
  then have m_pos: "0 < ?m" using assms(2) by blast
  have scl: "scl = widths / 2 / ?m" unfolding scl_def by simp
  have peak: "?m * scl = widths / 2" using m_pos by (simp add: scl)
  show in_set: "widths / 2 \<in> set (map (\<lambda>d. d * scl) dens)"
    using m_in peak by force
  show bound: "\<bar>d\<bar> \<le> \<bar>widths / 2\<bar>" if dm: "d \<in> set (map (\<lambda>d. d * scl) dens)" for d
  proof -
    obtain e where e: "e \<in> set dens" "d = e * scl" using dm by auto
    have "0 < e" "e \<le> ?m" using e(1) assms(2) by auto
    then have "\<bar>e * scl\<bar> \<le> ?m * \<bar>scl\<bar>"
      by (simp add: abs_mult mult_right_mono)
    also have "\<dots> = \<bar>?m * scl\<bar>" using m_pos by (simp add: abs_mult)
    finally show ?thesis using e(2) peak by simp
  qed
  show "Max (set (map (\<lambda>d. d * scl) dens)) = widths / 2" if "0 \<le> widths"
  proof (rule Max_eqI)
    show "finite (set (map (\<lambda>d. d * scl) dens))" by simp
    show "widths / 2 \<in> set (map (\<lambda>d. d * scl) dens)" by (rule in_set)
    show "y \<le> widths / 2" if "y \<in> set (map (\<lambda>d. d * scl) dens)" for y
      using bound[OF that] \<open>0 \<le> widths\<close> by simp
  qed
qed

text \<open>
  C10. Numbers are reals here, so the rounding of floating point is outside the
  statement. Whenever violin reaches the scaling of a sample's density, the density is
  positive on the whole support (the mask of \<^verbatim>\<open>_kde_support\<close> keeps the points above a
  positive fraction of the maximum), and after \<^verbatim>\<open>dens *= scl\<close> the value at the peak is
  \<^verbatim>\<open>widths / 2\<close>, no value is larger in absolute value, and for a width that is not
  negative this is the maximum of the array. The sample and the size of its density play
  no part.
\<close>

theorem violin_density_peak:
  assumes "violin_dens L a widths = Inr (y, scl, dens)"
  shows "widths / 2 \<in> set dens \<and>
         (\<forall>d \<in> set dens. \<bar>d\<bar> \<le> \<bar>widths / 2\<bar>) \<and>
         (0 \<le> widths \<longrightarrow> Max (set dens) = widths / 2)"
proof -
  obtain kde where k: "stats_gaussian_kde L a = Inr kde"
    using assms by (cases "stats_gaussian_kde L a") (auto simp: violin_dens_def)
  let ?kde = kde
  obtain y0 where y0: "kde_support a ?kde 1000 = Inr y0"
    using assms k by (cases "kde_support a ?kde 1000") (auto simp: violin_dens_def Let_def)
  have ne: "map ?kde y0 \<noteq> []"
    and y: "y = y0"
    and s: "scl = 1 / (Max (set (map ?kde y0)) / (widths / 2))"
    and d: "dens = map (\<lambda>d. d * (1 / (Max (set (map ?kde y0)) / (widths / 2)))) (map ?kde y0)"
    using assms k y0 by (auto simp: violin_dens_def Let_def split: if_splits)
  have pos: "0 < e" if "e \<in> set (map ?kde y0)" for e
    using that kde_support_density[OF y0] by auto
  have "widths / 2 \<in> set dens"
    unfolding d by (rule scaled_density(1)[OF ne pos])
  moreover have "\<forall>d \<in> set dens. \<bar>d\<bar> \<le> \<bar>widths / 2\<bar>"
    unfolding d using scaled_density(2)[OF ne pos] by blast
  moreover have "0 \<le> widths \<longrightarrow> Max (set dens) = widths / 2"
    unfolding d using scaled_density(3)[OF ne pos] by blast
  ultimately show ?thesis by blast
qed


lemma linspace_nonempty: "0 < n \<Longrightarrow> linspace a b n \<noteq> []"
  by (simp add: linspace_def)

lemma kde_support_const:
  assumes "a \<noteq> []" and "0 < npts" and "0 < c"
  shows "kde_support a (\<lambda>t. c) npts =
           Inr (linspace (Min (set a) - (Max (set a) - Min (set a)))
                  (Max (set a) + (Max (set a) - Min (set a))) (npts * 2))"
proof -
  define x where "x = linspace (Min (set a) - (Max (set a) - Min (set a)))
              (Max (set a) + (Max (set a) - Min (set a))) (npts * 2)"
  have x: "x \<noteq> []" unfolding x_def using assms(2) by (intro linspace_nonempty) simp
  then have "set (map (\<lambda>t. c) x) = {c}" by (cases x) auto
  then have M: "Max (set (map (\<lambda>t. c) x)) = c" by simp
  have "kde_support a (\<lambda>t. c) npts =
          (if a = [] then Inl zero_size
           else if map (\<lambda>t. c) x = [] then Inl zero_size
           else Inr (filter (\<lambda>t. c > Max (set (map (\<lambda>t. c) x)) * (1 / 10000)) x))"
    unfolding kde_support_def Let_def x_def by (rule refl)
  also have "\<dots> = Inr x" using assms(1,3) x unfolding M by simp
  finally show ?thesis unfolding x_def .
qed

text \<open>
  The hypothesis holds for a uniform density, for instance: the support is then the whole
  grid of 2000 points, and every scaled value is 0.15 for the width 0.3.
\<close>

theorem violin_density_peak_witness:
  "\<forall>L. violin_dens (L\<lparr>gaussian_kde := \<lambda>a. Inr (\<lambda>t. 1)\<rparr>) [0, 1] 0.3 =
          Inr (linspace (- 1) 2 2000, 3 / 20,
               map (\<lambda>d. d * (3 / 20)) (map (\<lambda>t. 1) (linspace (- 1) 2 2000))) \<and>
        (0.3 / 2 :: real) \<in>
          set (map (\<lambda>d. d * (3 / 20)) (map (\<lambda>t. 1) (linspace (- 1) 2 2000))) \<and>
        (0 :: real) \<le> 0.3 \<and>
        Max (set (map (\<lambda>d. d * (3 / 20)) (map (\<lambda>t. 1) (linspace (- 1) 2 2000)))) =
          (0.3 / 2 :: real)"
proof
  fix L
  let ?y = "linspace (- 1) 2 2000"
  let ?d = "map (\<lambda>d. d * (3 / 20)) (map (\<lambda>t. 1 :: real) ?y)"
  have s: "kde_support [0, 1] (\<lambda>t. 1) 1000 = Inr ?y"
    using kde_support_const[of "[0, 1]" 1000 1] by simp
  have ne: "?y \<noteq> []" by (rule linspace_nonempty) simp
  then have "set (map (\<lambda>t. 1::real) ?y) = {1}" by (cases ?y) auto
  then have M: "Max (set (map (\<lambda>t. 1::real) ?y)) = 1" by simp
  have h: "violin_dens (L\<lparr>gaussian_kde := \<lambda>a. Inr (\<lambda>t. 1)\<rparr>) [0, 1] 0.3 = Inr (?y, 3 / 20, ?d)"
    using ne by (simp add: violin_dens_def stats_gaussian_kde_def s Let_def M)
  have "(0.3 / 2 :: real) \<in> set ?d \<and> ((0 :: real) \<le> 0.3 \<longrightarrow> Max (set ?d) = (0.3 / 2 :: real))"
    using violin_density_peak[OF h] by blast
  then show "violin_dens (L\<lparr>gaussian_kde := \<lambda>a. Inr (\<lambda>t. 1)\<rparr>) [0, 1] 0.3 = Inr (?y, 3 / 20, ?d) \<and>
        (0.3 / 2 :: real) \<in> set ?d \<and> (0 :: real) \<le> 0.3 \<and> Max (set ?d) = (0.3 / 2 :: real)"
    using h by simp
qed

section \<open>boxplot\<close>

lemma extends_drawn_mono:
  assumes "extends a w w'" and "c \<in> set (drawn w a)"
  shows "c \<in> set (drawn w' a)"
  using assms by (auto simp: extends_def drawn_ax_calls)

lemma boxplot_color_world:
  "snd (boxplot_color L vals color (VAxis a) kw w) = w \<or>
   extends1 a w (snd (boxplot_color L vals color (VAxis a) kw w))"
  by (auto simp: boxplot_color_def Let_def case_prod_beta
      split: option.splits sum.splits list.splits
      intro!: extends1_call extends_call extends_refl)

lemma boxplot_color_not_axis:
  "(\<And>a. v \<noteq> VAxis a) \<Longrightarrow> snd (boxplot_color L vals color v kw w) = w"
  by (auto simp: boxplot_color_def Let_def case_prod_beta case_not_axis
      split: option.splits sum.splits list.splits)

lemma boxplot_run:
  obtains (fail) e a w' where
      "\<And>names. boxplot L vals join_rm names color kw w = (Inl e, w')"
      "extends a (snd (plt_subplot w)) w'"
  | (drawn) a k w' where
      "fst (pop ''ax'' (VAxis (fst (plt_subplot w))) kw) = VAxis a"
      "\<And>names. boxplot L vals join_rm names color kw w =
         (case names of
            None \<Rightarrow> (Inr a, w')
          | Some ns \<Rightarrow>
              if length vals \<noteq> length ns then (Inl names_error, w')
              else (Inr a, ax_call a (Call ''set_xticklabels'' [VStrs ns] []) w'))"
      "extends_by a (Call ''boxplot'' [VArray vals] ((''patch_artist'', VBool True) # k))
         (snd (plt_subplot w)) w'"
proof -
  let ?w1 = "snd (plt_subplot w)"
  let ?v = "fst (pop ''ax'' (VAxis (fst (plt_subplot w))) kw)"
  let ?kw = "snd (pop ''ax'' (VAxis (fst (plt_subplot w))) kw)"
  obtain r w2 where bc: "boxplot_color L vals color ?v ?kw ?w1 = (r, w2)"
    by (cases "boxplot_color L vals color ?v ?kw ?w1")
  show thesis
  proof (cases "\<exists>a. ?v = VAxis a")
    case False
    then have na: "\<And>a. ?v \<noteq> VAxis a" by blast
    have "w2 = ?w1" using boxplot_color_not_axis[OF na, of L vals color ?kw ?w1] bc by simp
    then have "\<exists>e. \<forall>names. boxplot L vals join_rm names color kw w = (Inl e, ?w1)"
      using bc by (cases r) (auto simp: boxplot_def Let_def case_prod_beta case_not_axis[OF na])
    then show thesis using fail[OF _ extends_refl] by blast
  next
    case True
    then obtain a where a: "?v = VAxis a" by blast
    have w2: "extends a ?w1 w2"
      using boxplot_color_world[of L vals color a ?kw ?w1] bc a extends_refl extends1_extends
      by auto
    show thesis
    proof (cases r)
      case (Inl e)
      then have "\<And>names. boxplot L vals join_rm names color kw w = (Inl e, w2)"
        using bc by (simp add: boxplot_def Let_def case_prod_beta)
      then show thesis using fail w2 by blast
    next
      case (Inr ck)
      obtain c k where ck: "ck = (c, k)" by (cases ck)
      obtain ko w3 where kc: "kw_call a ''boxplot'' [VArray vals] [(''patch_artist'', VBool True)] k w2 = (ko, w3)"
        by (cases "kw_call a ''boxplot'' [VArray vals] [(''patch_artist'', VBool True)] k w2")
      show thesis
      proof (cases ko)
        case (Some e)
        then have "\<And>names. boxplot L vals join_rm names color kw w = (Inl e, w3)"
          using bc Inr ck a kc by (simp add: boxplot_def Let_def case_prod_beta)
        moreover have "extends a ?w1 w3"
          using extends_kw_call[OF w2, of "''boxplot''" "[VArray vals]" "[(''patch_artist'', VBool True)]" k] kc
          by simp
        ultimately show thesis using fail by blast
      next
        case None
        then have w3: "w3 = ax_call a (Call ''boxplot'' [VArray vals] ((''patch_artist'', VBool True) # k)) w2"
          using kw_call_None[OF kc[unfolded None]] by simp
        have w3e: "extends_by a (Call ''boxplot'' [VArray vals] ((''patch_artist'', VBool True) # k))
                     ?w1 w3"
          unfolding w3 by (rule extends_by_call[OF w2])
        define w4 where "w4 = (if join_rm
                                 then ax_call a
                                        (Call ''plot''
                                           [VList (map real [1..<length vals + 1]), VArray vals]
                                           [(''color'', VStr c), (''alpha'', VNum (2 / 3))])
                                        (ax_calls a (box_styles L vals c) w3)
                                 else ax_calls a (box_styles L vals c) w3)"
        have w34: "extends a w3 w4"
          unfolding w4_def by (auto intro!: extends_call extends_calls extends_refl)
        have res: "\<And>names. boxplot L vals join_rm names color kw w =
           (case names of
              None \<Rightarrow> (Inr a, w4)
            | Some ns \<Rightarrow>
                if length vals \<noteq> length ns then (Inl names_error, w4)
                else (Inr a, ax_call a (Call ''set_xticklabels'' [VStrs ns] []) w4))"
          using bc Inr ck a kc None
          by (simp add: boxplot_def Let_def case_prod_beta w4_def names_error_def
              split: option.splits)
        show thesis
          using drawn[OF a res extends_by_then[OF w3e w34]] .
      qed
    qed
  qed
qed

section \<open>violin\<close>

lemma extends_fold_call:
  "extends a w w1 \<Longrightarrow> extends a w (fold (\<lambda>q. ax_call a (f q)) qs w1)"
  by (induction qs arbitrary: w1) (auto intro: extends_call)

lemma violin_dens_kde:
  assumes "violin_dens L s widths = Inr r"
  obtains kde where "stats_gaussian_kde L s = Inr kde"
  using assms by (cases "stats_gaussian_kde L s") (auto simp: violin_dens_def)

lemma violin_one_world:
  "extends a w (snd (violin_one L a color inner widths x s w))"
  by (cases "stats_gaussian_kde L s"; cases "violin_dens L s widths")
    (auto simp: violin_one_def Let_def case_prod_beta
      intro!: extends_fold_call extends_call extends_refl)

lemma violin_one_None:
  assumes "violin_one L a color inner widths x s w = (None, w')"
  shows "\<exists>args k. extends_by a (Call ''fill_betweenx'' args k) w w'"
proof -
  obtain kde where k: "stats_gaussian_kde L s = Inr kde"
    using assms by (cases "stats_gaussian_kde L s") (auto simp: violin_one_def)
  obtain y scl dens where d: "violin_dens L s widths = Inr (y, scl, dens)"
    using assms k by (cases "violin_dens L s widths") (auto simp: violin_one_def Let_def)
  let ?c = "Call ''fill_betweenx''
              [VList y, VList (map (\<lambda>d. x - d) dens), VList (map (\<lambda>d. x + d) dens)]
              [(''alpha'', VNum 0.7), (''color'', VStr color)]"
  let ?w1 = "ax_call a ?c w"
  have e: "extends a ?w1 w'"
    using assms d k
    by (auto simp: violin_one_def Let_def
        intro!: extends_fold_call extends_call extends_refl)
  have "extends_by a ?c w ?w1" by (rule extends_by_call[OF extends_refl])
  then have "extends_by a ?c w w'" using e by (rule extends_by_then)
  then show ?thesis by blast
qed

lemma violin_loop_world:
  "extends a w (snd (violin_loop L a color inner widths position i vs w))"
proof (induction vs arbitrary: i w)
  case Nil
  then show ?case by (simp add: extends_refl)
next
  case (Cons s vs)
  obtain eo w1 where o: "violin_one L a color inner widths (position ! i) s w = (eo, w1)"
    by (cases "violin_one L a color inner widths (position ! i) s w")
  have w1: "extends a w w1"
    using violin_one_world[of a w L color inner widths "position ! i" s] o by simp
  show ?case
  proof (cases "i < length position")
    case False
    then show ?thesis by (simp add: extends_refl)
  next
    case True
    show ?thesis
    proof (cases eo)
      case (Some e)
      then show ?thesis using True o w1 by simp
    next
      case None
      then show ?thesis
        using True o extends_trans[OF w1 Cons.IH[of w1 "Suc i"]] by simp
    qed
  qed
qed

lemma violin_loop_None:
  assumes "violin_loop L a color inner widths position i (s # vs) w = (None, w')"
  shows "\<exists>args k. extends_by a (Call ''fill_betweenx'' args k) w w'"
    and "position \<noteq> []"
proof -
  have i: "i < length position"
    using assms by (auto split: if_splits)
  then show "position \<noteq> []" by auto
  obtain w1 where o: "violin_one L a color inner widths (position ! i) s w = (None, w1)"
    and r: "violin_loop L a color inner widths position (Suc i) vs w1 = (None, w')"
    using assms i
    by (cases "violin_one L a color inner widths (position ! i) s w")
      (auto split: option.splits)
  have e: "extends a w1 w'"
    using violin_loop_world[of a w1 L color inner widths position "Suc i" vs] r by simp
  obtain args k where "extends_by a (Call ''fill_betweenx'' args k) w w1"
    using violin_one_None[OF o] by blast
  then have "extends_by a (Call ''fill_betweenx'' args k) w w'"
    using e by (rule extends_by_then)
  then show "\<exists>args k. extends_by a (Call ''fill_betweenx'' args k) w w'" by blast
qed

lemma list_case_hd: "xs \<noteq> [] \<Longrightarrow> (case xs of [] \<Rightarrow> a | x # _ \<Rightarrow> f x) = f (hd xs)"
  by (cases xs) auto

lemma violin_run:
  obtains (fail) e a w' where
      "\<And>names. violin L vals inner position widths join_rm names kw w = (Inl e, w')"
      "extends a (snd (plt_subplot w)) w'"
  | (drawn) a bins c w' where
      "fst (pop ''ax'' (VAxis (fst (plt_subplot w))) kw) = VAxis a"
      "violin_vals vals = Inr bins"
      "\<And>names. violin L vals inner position widths join_rm names kw w =
         (case names of
            None \<Rightarrow> (Inr a, ax_call a c w')
          | Some ns \<Rightarrow>
              if length bins \<noteq> length ns then (Inl names_error, w')
              else (Inr a, ax_call a c (ax_call a (Call ''set_xticklabels'' [VStrs ns] []) w')))"
      "\<exists>args k. extends_by a (Call ''fill_betweenx'' args k) (snd (plt_subplot w)) w'"
proof -
  let ?w1 = "snd (plt_subplot w)"
  let ?v = "fst (pop ''ax'' (VAxis (fst (plt_subplot w))) kw)"
  let ?kw = "snd (pop ''ax'' (VAxis (fst (plt_subplot w))) kw)"
  show thesis
  proof (cases "violin_vals vals")
    case (Inl e)
    then have "\<And>names. violin L vals inner position widths join_rm names kw w = (Inl e, ?w1)"
      by (simp add: violin_def Let_def case_prod_beta)
    then show thesis using fail[OF _ extends_refl] by blast
  next
    case (Inr bins)
    show thesis
    proof (cases "\<exists>a. ?v = VAxis a")
      case False
      then have na: "\<And>a. ?v \<noteq> VAxis a" by blast
      have "\<And>names. violin L vals inner position widths join_rm names kw w =
              (Inl AttributeError, ?w1)"
        using Inr by (simp add: violin_def Let_def case_prod_beta case_not_axis[OF na])
      then show thesis using fail[OF _ extends_refl] by blast
    next
      case True
      then obtain a where a: "?v = VAxis a" by blast
      show thesis
      proof (cases bins)
        case Nil
        then have "\<And>names. violin L vals inner position widths join_rm names kw w =
              (Inl IndexError, ?w1)"
          using Inr a by (simp add: violin_def Let_def case_prod_beta)
        then show thesis using fail[OF _ extends_refl] by blast
      next
        case (Cons v0 rest)
        define color where "color = get_color L ?kw"
        define pos where "pos = (case position of
                                   PosNone \<Rightarrow> arange 1 (length bins)
                                 | PosNum p \<Rightarrow> arange p (length bins)
                                 | PosSeq ps \<Rightarrow> ps)"
        have bne: "bins \<noteq> []" using Cons by simp
        define w2 where "w2 = ax_call a LineRemove
                    (ax_call a (Call ''plot'' [VNum (mean L (hd bins)), VNum (mean L (hd bins))] ?kw) ?w1)"
        have w2: "extends1 a ?w1 w2"
          unfolding w2_def by (rule extends1_call[OF extends_call[OF extends_refl]])
        obtain eo w3 where lp: "violin_loop L a color inner widths pos 0 bins w2 = (eo, w3)"
          by (cases "violin_loop L a color inner widths pos 0 bins w2")
        have w3: "extends a w2 w3"
          using violin_loop_world[of a w2 L color inner widths pos 0 bins] lp by simp
        show thesis
        proof (cases eo)
          case (Some e)
          then have "\<And>names. violin L vals inner position widths join_rm names kw w = (Inl e, w3)"
            using Inr a lp[unfolded color_def pos_def w2_def]
            by (simp add: violin_def Let_def case_prod_beta list_case_hd[OF bne]
                del: violin_loop.simps)
          then show thesis
            using fail[OF _ extends1_extends[OF extends1_then[OF w2 w3]]] by blast
        next
          case None
          define w4 where "w4 = ax_call a (Call ''set_xticks'' [VList pos] [])
              (if join_rm
               then ax_call a
                      (Call ''plot''
                         [VList (map real [1..<length (np_transpose bins) + 1]),
                          VArray (np_transpose bins)]
                         [(''color'', VStr color), (''alpha'', VNum (2 / 3))]) w3
               else w3)"
          have w34: "extends a w3 w4"
            unfolding w4_def by (auto intro!: extends_call extends_refl)
          have pne: "pos \<noteq> []"
            using violin_loop_None(2)[OF lp[unfolded None Cons]] .
          obtain args k where "extends_by a (Call ''fill_betweenx'' args k) w2 w3"
            using violin_loop_None(1)[OF lp[unfolded None Cons]] by blast
          then have "extends_by a (Call ''fill_betweenx'' args k) ?w1 w4"
            using extends_by_then[OF extends_by_after[OF extends1_extends[OF w2]] w34] by blast
          then have fb: "\<exists>args k. extends_by a (Call ''fill_betweenx'' args k) ?w1 w4"
            by blast
          have res: "\<And>names. violin L vals inner position widths join_rm names kw w =
             (case names of
                None \<Rightarrow> (Inr a, ax_call a (Call ''set_xlim''
                                 [VNum (hd pos - 0.5), VNum (last pos + 0.5)] []) w4)
              | Some ns \<Rightarrow>
                  if length bins \<noteq> length ns then (Inl names_error, w4)
                  else (Inr a, ax_call a (Call ''set_xlim''
                                 [VNum (hd pos - 0.5), VNum (last pos + 0.5)] [])
                          (ax_call a (Call ''set_xticklabels'' [VStrs ns] []) w4)))"
            using Inr a lp[unfolded color_def pos_def w2_def None] pne[unfolded pos_def]
            by (simp add: violin_def Let_def case_prod_beta w4_def color_def pos_def names_error_def
                list_case_hd[OF bne] del: violin_loop.simps split: option.splits)
          show thesis using drawn[OF a Inr res fb] .
        qed
      qed
    qed
  qed
qed

section \<open>Calls that complete\<close>

lemma kde_support_positive:
  assumes "a \<noteq> []" and "0 < npts" and "\<And>t. 0 < kde t"
  shows "\<exists>y. kde_support a kde npts = Inr y \<and> y \<noteq> []"
proof -
  define x where "x = linspace (Min (set a) - (Max (set a) - Min (set a)))
              (Max (set a) + (Max (set a) - Min (set a))) (npts * 2)"
  let ?M = "Max (set (map kde x))"
  have x: "x \<noteq> []" unfolding x_def using assms(2) by (intro linspace_nonempty) simp
  have eq: "kde_support a kde npts =
          (if a = [] then Inl zero_size
           else if map kde x = [] then Inl zero_size
           else Inr (filter (\<lambda>t. kde t > ?M * (1 / 10000)) x))"
    unfolding kde_support_def Let_def x_def by (rule refl)
  have "?M \<in> set (map kde x)" using x by (intro Max_in) auto
  then obtain t where t: "t \<in> set x" "kde t = ?M" by auto
  have "0 < ?M" using assms(3)[of t] t(2) by simp
  then have "?M * (1 / 10000) < kde t" using t(2) by simp
  then have "filter (\<lambda>t. kde t > ?M * (1 / 10000)) x \<noteq> []"
    using t(1) unfolding filter_empty_conv by blast
  then show ?thesis using eq assms(1) x by simp
qed

lemma stats_gaussian_kde_sample:
  assumes "stats_gaussian_kde L a = Inr k"
  shows "2 \<le> length a" and "a \<noteq> []" and "gaussian_kde L a = Inr k"
  using assms by (auto simp: stats_gaussian_kde_def split: if_splits)

lemma violin_dens_positive:
  assumes "stats_gaussian_kde L a = Inr k" and "\<And>t. 0 < k t"
  shows "\<exists>y scl dens. violin_dens L a widths = Inr (y, scl, dens)"
proof -
  have "a \<noteq> []" using assms(1) by (rule stats_gaussian_kde_sample)
  then obtain y where y: "kde_support a k 1000 = Inr y" "y \<noteq> []"
    using kde_support_positive[of a 1000 k] assms(2) by auto
  then show ?thesis using assms(1) by (simp add: violin_dens_def Let_def)
qed

lemma violin_one_positive:
  assumes "stats_gaussian_kde L s = Inr k" and "\<And>t. 0 < k t"
  shows "fst (violin_one L a color inner widths x s w) = None"
proof -
  obtain y scl dens where "violin_dens L s widths = Inr (y, scl, dens)"
    using violin_dens_positive[OF assms] by blast
  then show ?thesis using assms(1) by (simp add: violin_one_def Let_def)
qed

lemma violin_loop_positive:
  assumes "list_all (\<lambda>s. \<exists>k. stats_gaussian_kde L s = Inr k \<and> (\<forall>t. 0 < k t)) vs"
    and "i + length vs \<le> length position"
  shows "fst (violin_loop L a color inner widths position i vs w) = None"
  using assms
proof (induction vs arbitrary: i w)
  case Nil
  then show ?case by simp
next
  case (Cons s vs)
  obtain k where s: "stats_gaussian_kde L s = Inr k" "\<And>t. 0 < k t"
    using Cons.prems(1) by auto
  obtain eo w1 where o: "violin_one L a color inner widths (position ! i) s w = (eo, w1)"
    by (cases "violin_one L a color inner widths (position ! i) s w")
  then have "eo = None"
    using violin_one_positive[OF s, of a color inner widths "position ! i" w] by simp
  moreover have "fst (violin_loop L a color inner widths position (Suc i) vs w1) = None"
    using Cons.prems by (intro Cons.IH) auto
  ultimately show ?case using o Cons.prems(2) by simp
qed

lemma violin_vals_column:
  "violin_vals (Arr \<lparr>shape = [n, Suc 0], flat = xs\<rparr>) = Inr [xs]"
  by (simp add: violin_vals_def Let_def)

lemma violin_single_column:
  assumes "stats_gaussian_kde L xs = Inr k" and "\<And>t. 0 < k t"
  shows "fst (violin L (Arr \<lparr>shape = [n, 1], flat = xs\<rparr>) ''box'' PosNone 0.3 False None [] w) =
           Inr (fst (plt_subplot w))"
proof -
  let ?a = "fst (plt_subplot w)"
  let ?w2 = "ax_call ?a LineRemove
               (ax_call ?a (Call ''plot'' [VNum (mean L xs), VNum (mean L xs)] [])
                  (snd (plt_subplot w)))"
  have "fst (violin_loop L ?a (get_color L []) ''box'' 0.3 (arange 1 (length [xs])) 0 [xs] ?w2) = None"
    using assms by (intro violin_loop_positive) (auto simp: arange_def)
  then obtain w3 where
    "violin_loop L ?a (get_color L []) ''box'' 0.3 (arange 1 (length [xs])) 0 [xs] ?w2 = (None, w3)"
    by (metis prod.collapse)
  then show ?thesis
    by (simp add: violin_def Let_def case_prod_beta violin_vals_column pop_def arange_def
        del: violin_loop.simps)
qed

section \<open>The names check of boxplot and violin\<close>

lemma extends1_drawn:
  assumes "extends1 a (snd (plt_subplot w)) w'"
  shows "\<exists>cs. cs \<noteq> [] \<and> drawn w' a = drawn w a @ cs"
  using assms by (auto simp: extends1_def drawn_ax_calls plt_subplot_drawn)

lemma boxplot_minimal:
  assumes "vals \<noteq> []"
  shows "fst (boxplot L vals False None None [] w) = Inr (fst (plt_subplot w))"
  using assms
  by (cases vals)
    (simp_all add: boxplot_def boxplot_color_def Let_def case_prod_beta pop_def subscript0_def
      kw_call_def)

text \<open>
  C4. Take a call of boxplot or violin that completes when no names are given. The same
  call with a list of names fails with the ValueError of the names check when the length
  of the list differs from the number of bins (\<^verbatim>\<open>len(vals)\<close>; for violin, of the list of
  samples that the input was turned into), and otherwise completes with
  \<^verbatim>\<open>set_xticklabels(names)\<close> as one more call on the axis: the last one for boxplot, the
  one before \<^verbatim>\<open>set_xlim\<close> for violin.
\<close>

theorem names_length_check:
  "(fst (boxplot L vals join_rm None color kw w) = Inr a \<longrightarrow>
      boxplot L vals join_rm (Some names) color kw w =
        (if length vals \<noteq> length names
         then (Inl names_error, snd (boxplot L vals join_rm None color kw w))
         else (Inr a,
               ax_call a (Call ''set_xticklabels'' [VStrs names] [])
                 (snd (boxplot L vals join_rm None color kw w))))) \<and>
   (fst (violin L v inner position widths join_rm None kw w) = Inr a \<longrightarrow>
      (\<exists>bins c w0.
         violin_vals v = Inr bins \<and>
         snd (violin L v inner position widths join_rm None kw w) = ax_call a c w0 \<and>
         violin L v inner position widths join_rm (Some names) kw w =
           (if length bins \<noteq> length names then (Inl names_error, w0)
            else (Inr a,
                  ax_call a c (ax_call a (Call ''set_xticklabels'' [VStrs names] []) w0)))))"
proof (intro conjI impI)
  assume ok: "fst (boxplot L vals join_rm None color kw w) = Inr a"
  show "boxplot L vals join_rm (Some names) color kw w =
        (if length vals \<noteq> length names
         then (Inl names_error, snd (boxplot L vals join_rm None color kw w))
         else (Inr a,
               ax_call a (Call ''set_xticklabels'' [VStrs names] [])
                 (snd (boxplot L vals join_rm None color kw w))))"
  proof (cases rule: boxplot_run[of L vals join_rm color kw w])
    case (fail e b w')
    then show ?thesis using ok by simp
  next
    case (drawn b k w')
    have "b = a" using drawn(2)[of None] ok by simp
    then show ?thesis using drawn(2)[of None] drawn(2)[of "Some names"] by simp
  qed
next
  assume ok: "fst (violin L v inner position widths join_rm None kw w) = Inr a"
  show "\<exists>bins c w0.
         violin_vals v = Inr bins \<and>
         snd (violin L v inner position widths join_rm None kw w) = ax_call a c w0 \<and>
         violin L v inner position widths join_rm (Some names) kw w =
           (if length bins \<noteq> length names then (Inl names_error, w0)
            else (Inr a,
                  ax_call a c (ax_call a (Call ''set_xticklabels'' [VStrs names] []) w0)))"
  proof (cases rule: violin_run[of L v inner position widths join_rm kw w])
    case (fail e b w')
    then show ?thesis using ok by simp
  next
    case (drawn b bins c w')
    have "b = a" using drawn(3)[of None] ok by simp
    then have "violin_vals v = Inr bins \<and>
         snd (violin L v inner position widths join_rm None kw w) = ax_call a c w' \<and>
         violin L v inner position widths join_rm (Some names) kw w =
           (if length bins \<noteq> length names then (Inl names_error, w')
            else (Inr a,
                  ax_call a c (ax_call a (Call ''set_xticklabels'' [VStrs names] []) w')))"
      using drawn(2) drawn(3)[of None] drawn(3)[of "Some names"] by simp
    then show ?thesis by blast
  qed
qed

theorem names_length_check_witness:
  "\<forall>L. fst (boxplot L [[1, 2], [3]] False None None [] one_axis) = Inr 1 \<and>
        boxplot L [[1, 2], [3]] False (Some [''a'']) None [] one_axis =
          (Inl names_error, snd (boxplot L [[1, 2], [3]] False None None [] one_axis)) \<and>
        boxplot L [[1, 2], [3]] False (Some [''a'', ''b'']) None [] one_axis =
          (Inr 1, ax_call 1 (Call ''set_xticklabels'' [VStrs [''a'', ''b'']] [])
                    (snd (boxplot L [[1, 2], [3]] False None None [] one_axis))) \<and>
        fst (violin (L\<lparr>gaussian_kde := \<lambda>a. Inr (\<lambda>t. 1)\<rparr>) (Arr \<lparr>shape = [2, 1], flat = [0, 1]\<rparr>)
               ''box'' PosNone 0.3 False None [] one_axis) = Inr 1 \<and>
        fst (violin (L\<lparr>gaussian_kde := \<lambda>a. Inr (\<lambda>t. 1)\<rparr>) (Arr \<lparr>shape = [2, 1], flat = [0, 1]\<rparr>)
               ''box'' PosNone 0.3 False (Some [''a'', ''b'']) [] one_axis) = Inl names_error \<and>
        fst (violin (L\<lparr>gaussian_kde := \<lambda>a. Inr (\<lambda>t. 1)\<rparr>) (Arr \<lparr>shape = [2, 1], flat = [0, 1]\<rparr>)
               ''box'' PosNone 0.3 False (Some [''a'']) [] one_axis) = Inr 1"
proof
  fix L :: libs
  let ?K = "L\<lparr>gaussian_kde := \<lambda>a. Inr (\<lambda>t. 1)\<rparr>"
  let ?v = "Arr \<lparr>shape = [2, 1], flat = [0, 1]\<rparr>"
  have s1: "fst (plt_subplot one_axis) = 1" by (simp add: plt_subplot_def one_axis_def)
  have b: "fst (boxplot L [[1, 2], [3]] False None None [] one_axis) = Inr 1"
    using boxplot_minimal[of "[[1, 2], [3]]" L one_axis] s1 by simp
  have v: "fst (violin ?K ?v ''box'' PosNone 0.3 False None [] one_axis) = Inr 1"
    using violin_single_column[where xs = "[0, 1]" and L = ?K and n = 2 and w = one_axis and
        k = "\<lambda>t. 1"] s1
    by (simp add: stats_gaussian_kde_def)
  have bins: "violin_vals ?v = Inr [[0, 1]]"
    using violin_vals_column[of 2 "[0, 1]"] by simp
  have b1: "boxplot L [[1, 2], [3]] False (Some [''a'']) None [] one_axis =
          (Inl names_error, snd (boxplot L [[1, 2], [3]] False None None [] one_axis))"
    using names_length_check[where L = L and vals = "[[1, 2], [3]]" and join_rm = False
        and color = None and kw = "[]" and w = one_axis and a = 1 and names = "[''a'']"
        and v = "Seq []" and inner = "''box''" and position = PosNone and widths = 0] b
    by simp
  have b2: "boxplot L [[1, 2], [3]] False (Some [''a'', ''b'']) None [] one_axis =
          (Inr 1, ax_call 1 (Call ''set_xticklabels'' [VStrs [''a'', ''b'']] [])
                    (snd (boxplot L [[1, 2], [3]] False None None [] one_axis)))"
    using names_length_check[where L = L and vals = "[[1, 2], [3]]" and join_rm = False
        and color = None and kw = "[]" and w = one_axis and a = 1 and names = "[''a'', ''b'']"
        and v = "Seq []" and inner = "''box''" and position = PosNone and widths = 0] b
    by simp
  have v1: "fst (violin ?K ?v ''box'' PosNone 0.3 False (Some [''a'', ''b'']) [] one_axis) =
              Inl names_error"
    using names_length_check[where L = "L\<lparr>gaussian_kde := \<lambda>a. Inr (\<lambda>t. 1)\<rparr>" and v = "Arr \<lparr>shape = [2, 1], flat = [0, 1]\<rparr>"
        and inner = "''box''" and position = PosNone and widths = "0.3" and join_rm = False
        and kw = "[]" and w = one_axis and a = 1 and names = "[''a'', ''b'']"
        and vals = "[]" and color = None] v bins
    by auto
  have v2: "fst (violin ?K ?v ''box'' PosNone 0.3 False (Some [''a'']) [] one_axis) = Inr 1"
    using names_length_check[where L = "L\<lparr>gaussian_kde := \<lambda>a. Inr (\<lambda>t. 1)\<rparr>" and v = "Arr \<lparr>shape = [2, 1], flat = [0, 1]\<rparr>"
        and inner = "''box''" and position = PosNone and widths = "0.3" and join_rm = False
        and kw = "[]" and w = one_axis and a = 1 and names = "[''a'']"
        and vals = "[]" and color = None] v bins
    by auto
  show "fst (boxplot L [[1, 2], [3]] False None None [] one_axis) = Inr 1 \<and>
        boxplot L [[1, 2], [3]] False (Some [''a'']) None [] one_axis =
          (Inl names_error, snd (boxplot L [[1, 2], [3]] False None None [] one_axis)) \<and>
        boxplot L [[1, 2], [3]] False (Some [''a'', ''b'']) None [] one_axis =
          (Inr 1, ax_call 1 (Call ''set_xticklabels'' [VStrs [''a'', ''b'']] [])
                    (snd (boxplot L [[1, 2], [3]] False None None [] one_axis))) \<and>
        fst (violin ?K ?v ''box'' PosNone 0.3 False None [] one_axis) = Inr 1 \<and>
        fst (violin ?K ?v ''box'' PosNone 0.3 False (Some [''a'', ''b'']) [] one_axis) =
          Inl names_error \<and>
        fst (violin ?K ?v ''box'' PosNone 0.3 False (Some [''a'']) [] one_axis) = Inr 1"
    using b b1 b2 v v1 v2 by blast
qed

text \<open>
  C9. In such a call the check of the names comes after the drawing: when it raises, the
  axis already holds the calls made for the boxes (\<^verbatim>\<open>ax.boxplot\<close>) or for the violins
  (\<^verbatim>\<open>ax.fill_betweenx\<close>), and they stay.
\<close>

theorem names_check_after_drawing:
  "(fst (boxplot L vals join_rm None color kw w) = Inr a \<and> length vals \<noteq> length names \<longrightarrow>
      (\<exists>w' cs k.
         boxplot L vals join_rm (Some names) color kw w = (Inl names_error, w') \<and>
         drawn w' a = drawn w a @ cs \<and>
         Call ''boxplot'' [VArray vals] k \<in> set cs)) \<and>
   (fst (violin L v inner position widths join_rm None kw w) = Inr a \<and>
    violin_vals v = Inr bins \<and> length bins \<noteq> length names \<longrightarrow>
      (\<exists>w' cs args k.
         violin L v inner position widths join_rm (Some names) kw w = (Inl names_error, w') \<and>
         drawn w' a = drawn w a @ cs \<and>
         Call ''fill_betweenx'' args k \<in> set cs))"
proof (intro conjI impI)
  assume "fst (boxplot L vals join_rm None color kw w) = Inr a \<and> length vals \<noteq> length names"
  then have ok: "fst (boxplot L vals join_rm None color kw w) = Inr a"
    and ne: "length vals \<noteq> length names" by simp_all
  show "\<exists>w' cs k.
         boxplot L vals join_rm (Some names) color kw w = (Inl names_error, w') \<and>
         drawn w' a = drawn w a @ cs \<and>
         Call ''boxplot'' [VArray vals] k \<in> set cs"
  proof (cases rule: boxplot_run[of L vals join_rm color kw w])
    case (fail e b w')
    then show ?thesis using ok by simp
  next
    case (drawn b k w')
    have ba: "b = a" using drawn(2)[of None] ok by simp
    obtain cs where "drawn w' a = drawn w a @ cs"
      "Call ''boxplot'' [VArray vals] ((''patch_artist'', VBool True) # k) \<in> set cs"
      using extends_by_drawn[OF drawn(3)] ba by blast
    moreover have "boxplot L vals join_rm (Some names) color kw w = (Inl names_error, w')"
      using drawn(2)[of "Some names"] ne by simp
    ultimately show ?thesis by blast
  qed
next
  assume "fst (violin L v inner position widths join_rm None kw w) = Inr a \<and>
    violin_vals v = Inr bins \<and> length bins \<noteq> length names"
  then have ok: "fst (violin L v inner position widths join_rm None kw w) = Inr a"
    and bins: "violin_vals v = Inr bins"
    and ne: "length bins \<noteq> length names" by simp_all
  show "\<exists>w' cs args k.
         violin L v inner position widths join_rm (Some names) kw w = (Inl names_error, w') \<and>
         drawn w' a = drawn w a @ cs \<and>
         Call ''fill_betweenx'' args k \<in> set cs"
  proof (cases rule: violin_run[of L v inner position widths join_rm kw w])
    case (fail e b w')
    then show ?thesis using ok by simp
  next
    case (drawn b bs c w')
    have ba: "b = a" using drawn(3)[of None] ok by simp
    have bb: "bs = bins" using drawn(2) bins by simp
    obtain args k where "extends_by a (Call ''fill_betweenx'' args k) (snd (plt_subplot w)) w'"
      using drawn(4) ba by blast
    then obtain cs where "drawn w' a = drawn w a @ cs" "Call ''fill_betweenx'' args k \<in> set cs"
      using extends_by_drawn by blast
    moreover have "violin L v inner position widths join_rm (Some names) kw w =
                     (Inl names_error, w')"
      using drawn(3)[of "Some names"] ne bb by simp
    ultimately show ?thesis by blast
  qed
qed

theorem names_check_after_drawing_witness:
  "\<forall>L. (fst (boxplot L [[1, 2], [3]] False None None [] one_axis) = Inr 1 \<and>
         length [[1, 2], [3 :: real]] \<noteq> length [''a'']) \<and>
        (\<exists>w' cs k.
           boxplot L [[1, 2], [3]] False (Some [''a'']) None [] one_axis = (Inl names_error, w') \<and>
           drawn w' 1 = drawn one_axis 1 @ cs \<and>
           Call ''boxplot'' [VArray [[1, 2], [3]]] k \<in> set cs) \<and>
        (fst (violin (L\<lparr>gaussian_kde := \<lambda>a. Inr (\<lambda>t. 1)\<rparr>) (Arr \<lparr>shape = [2, 1], flat = [0, 1]\<rparr>)
               ''box'' PosNone 0.3 False None [] one_axis) = Inr 1 \<and>
         violin_vals (Arr \<lparr>shape = [2, 1], flat = [0, 1]\<rparr>) = Inr [[0, 1]] \<and>
         length [[0, 1 :: real]] \<noteq> length [''a'', ''b'']) \<and>
        (\<exists>w' cs args k.
           violin (L\<lparr>gaussian_kde := \<lambda>a. Inr (\<lambda>t. 1)\<rparr>) (Arr \<lparr>shape = [2, 1], flat = [0, 1]\<rparr>)
             ''box'' PosNone 0.3 False (Some [''a'', ''b'']) [] one_axis = (Inl names_error, w') \<and>
           drawn w' 1 = drawn one_axis 1 @ cs \<and>
           Call ''fill_betweenx'' args k \<in> set cs)"
proof
  fix L :: libs
  let ?K = "L\<lparr>gaussian_kde := \<lambda>a. Inr (\<lambda>t. 1)\<rparr>"
  let ?v = "Arr \<lparr>shape = [2, 1], flat = [0, 1]\<rparr>"
  have s1: "fst (plt_subplot one_axis) = 1" by (simp add: plt_subplot_def one_axis_def)
  have b: "fst (boxplot L [[1, 2], [3]] False None None [] one_axis) = Inr 1 \<and>
           length [[1, 2], [3 :: real]] \<noteq> length [''a'']"
    using boxplot_minimal[of "[[1, 2], [3]]" L one_axis] s1 by simp
  have v: "fst (violin ?K ?v ''box'' PosNone 0.3 False None [] one_axis) = Inr 1 \<and>
           violin_vals ?v = Inr [[0, 1]] \<and> length [[0, 1 :: real]] \<noteq> length [''a'', ''b'']"
    using violin_single_column[where xs = "[0, 1]" and L = ?K and n = 2 and w = one_axis and
        k = "\<lambda>t. 1"] s1 violin_vals_column[of 2 "[0, 1]"]
    by (simp add: stats_gaussian_kde_def)
  have b1: "\<exists>w' cs k.
           boxplot L [[1, 2], [3]] False (Some [''a'']) None [] one_axis = (Inl names_error, w') \<and>
           drawn w' 1 = drawn one_axis 1 @ cs \<and>
           Call ''boxplot'' [VArray [[1, 2], [3]]] k \<in> set cs"
    using names_check_after_drawing[where L = L and vals = "[[1, 2], [3]]" and join_rm = False
        and color = None and kw = "[]" and w = one_axis and a = 1 and names = "[''a'']"
        and v = "Seq []" and inner = "''box''" and position = PosNone and widths = 0
        and bins = "[]"] b
    by blast
  have v1: "\<exists>w' cs args k.
           violin ?K ?v ''box'' PosNone 0.3 False (Some [''a'', ''b'']) [] one_axis =
             (Inl names_error, w') \<and>
           drawn w' 1 = drawn one_axis 1 @ cs \<and>
           Call ''fill_betweenx'' args k \<in> set cs"
    using names_check_after_drawing[where L = "L\<lparr>gaussian_kde := \<lambda>a. Inr (\<lambda>t. 1)\<rparr>" and v = "Arr \<lparr>shape = [2, 1], flat = [0, 1]\<rparr>"
        and inner = "''box''" and position = PosNone and widths = "0.3" and join_rm = False
        and kw = "[]" and w = one_axis and a = 1 and names = "[''a'', ''b'']"
        and bins = "[[0, 1]]" and vals = "[]" and color = None] v
    by blast
  show "(fst (boxplot L [[1, 2], [3]] False None None [] one_axis) = Inr 1 \<and>
         length [[1, 2], [3 :: real]] \<noteq> length [''a'']) \<and>
        (\<exists>w' cs k.
           boxplot L [[1, 2], [3]] False (Some [''a'']) None [] one_axis = (Inl names_error, w') \<and>
           drawn w' 1 = drawn one_axis 1 @ cs \<and>
           Call ''boxplot'' [VArray [[1, 2], [3]]] k \<in> set cs) \<and>
        (fst (violin ?K ?v ''box'' PosNone 0.3 False None [] one_axis) = Inr 1 \<and>
         violin_vals ?v = Inr [[0, 1]] \<and> length [[0, 1 :: real]] \<noteq> length [''a'', ''b'']) \<and>
        (\<exists>w' cs args k.
           violin ?K ?v ''box'' PosNone 0.3 False (Some [''a'', ''b'']) [] one_axis =
             (Inl names_error, w') \<and>
           drawn w' 1 = drawn one_axis 1 @ cs \<and>
           Call ''fill_betweenx'' args k \<in> set cs)"
    using b b1 v v1 by blast
qed

section \<open>regplot, rugplot and kdeplot: the axis\<close>

lemma regplot_run:
  obtains (given) a w' where
      "named_ax kw = VAxis a"
      "regplot L x y xlabel ylabel markerstyle corr_func kw w = (Inr a, w')"
      "extends1 a w w'"
  | (new) w' where
      "named_ax kw = VNone"
      "regplot L x y xlabel ylabel markerstyle corr_func kw w = (Inr (fst (plt_subplot w)), w')"
      "extends1 (fst (plt_subplot w)) (snd (plt_subplot w)) w'"
  | (fail)
      "named_ax kw \<noteq> VNone" "\<And>a. named_ax kw \<noteq> VAxis a"
      "regplot L x y xlabel ylabel markerstyle corr_func kw w = (Inl AttributeError, w)"
proof (cases "named_ax kw = VNone")
  case True
  have "\<exists>w'. regplot L x y xlabel ylabel markerstyle corr_func kw w = (Inr (fst (plt_subplot w)), w') \<and>
          extends1 (fst (plt_subplot w)) (snd (plt_subplot w)) w'"
    using True
    by (auto simp: regplot_def Let_def case_prod_beta
        intro!: extends1_call extends_call extends_refl)
  then show thesis using new True by blast
next
  case False
  show thesis
  proof (cases "\<exists>a. named_ax kw = VAxis a")
    case True
    then obtain a where a: "named_ax kw = VAxis a" by blast
    have "\<exists>w'. regplot L x y xlabel ylabel markerstyle corr_func kw w = (Inr a, w') \<and>
            extends1 a w w'"
      using a
      by (auto simp: regplot_def Let_def case_prod_beta
          intro!: extends1_call extends_call extends_refl)
    then show thesis using given a by blast
  next
    case na: False
    then have "regplot L x y xlabel ylabel markerstyle corr_func kw w = (Inl AttributeError, w)"
      using False by (simp add: regplot_def Let_def case_prod_beta case_not_axis)
    then show thesis using fail False na by blast
  qed
qed

lemma rugplot_run:
  obtains (given) a w' where
      "named_ax kw = VAxis a"
      "rugplot L s height kw w = (Inr a, w')"
      "extends1 a w w'"
  | (new) w' where
      "named_ax kw = VNone"
      "rugplot L s height kw w = (Inr (fst (plt_subplot w)), w')"
      "extends1 (fst (plt_subplot w)) (snd (plt_subplot w)) w'"
  | (fail)
      "named_ax kw \<noteq> VNone" "\<And>a. named_ax kw \<noteq> VAxis a"
      "rugplot L s height kw w = (Inl AttributeError, w)"
proof (cases "named_ax kw = VNone")
  case True
  have "\<exists>w'. rugplot L s height kw w = (Inr (fst (plt_subplot w)), w') \<and>
          extends1 (fst (plt_subplot w)) (snd (plt_subplot w)) w'"
    using True
    by (auto simp: rugplot_def Let_def case_prod_beta
        intro!: extends1_call extends_call extends_refl)
  then show thesis using new True by blast
next
  case False
  show thesis
  proof (cases "\<exists>a. named_ax kw = VAxis a")
    case True
    then obtain a where a: "named_ax kw = VAxis a" by blast
    have "\<exists>w'. rugplot L s height kw w = (Inr a, w') \<and> extends1 a w w'"
      using a
      by (auto simp: rugplot_def Let_def case_prod_beta
          intro!: extends1_call extends_call extends_refl)
    then show thesis using given a by blast
  next
    case na: False
    then have "rugplot L s height kw w = (Inl AttributeError, w)"
      using False by (simp add: rugplot_def Let_def case_prod_beta case_not_axis)
    then show thesis using fail False na by blast
  qed
qed

lemma kdeplot_run:
  obtains (fail) e a w' where
      "kdeplot L s npts hist nbins rug shade kw w = (Inl e, w')"
      "extends a (snd (plt_subplot w)) w'"
  | (ok) a w' where
      "fst (pop ''ax'' (VAxis (fst (plt_subplot w))) kw) = VAxis a"
      "kdeplot L s npts hist nbins rug shade kw w = (Inr a, w')"
      "extends1 a (snd (plt_subplot w)) w'"
proof -
  let ?w1 = "snd (plt_subplot w)"
  let ?v = "fst (pop ''ax'' (VAxis (fst (plt_subplot w))) kw)"
  let ?kw = "snd (pop ''ax'' (VAxis (fst (plt_subplot w))) kw)"
  show thesis
  proof (cases "stats_gaussian_kde L (flat s)")
    case (Inl e)
    then have "kdeplot L s npts hist nbins rug shade kw w = (Inl e, ?w1)"
      by (simp add: kdeplot_def Let_def case_prod_beta)
    then show thesis using fail[OF _ extends_refl] by blast
  next
    case (Inr kde)
    note K = this
    let ?kde = kde
    show thesis
    proof (cases "kde_support (flat s) ?kde npts")
      case (Inl e)
      then have "kdeplot L s npts hist nbins rug shade kw w = (Inl e, ?w1)"
        by (simp add: kdeplot_def K Let_def case_prod_beta)
      then show thesis using fail[OF _ extends_refl] by blast
    next
      case (Inr x)
      show thesis
      proof (cases "\<exists>a. ?v = VAxis a")
        case False
        then have na: "\<And>a. ?v \<noteq> VAxis a" by blast
        have "kdeplot L s npts hist nbins rug shade kw w = (Inl AttributeError, ?w1)"
          using Inr by (simp add: kdeplot_def K Let_def case_prod_beta case_not_axis[OF na])
        then show thesis using fail[OF _ extends_refl] by blast
      next
        case True
        then obtain a where a: "?v = VAxis a" by blast
        define color where "color = get_color L ?kw"
        define kw2 where "kw2 = snd (pop ''color'' VNone ?kw)"
        define w2 where "w2 = ax_call a LineRemove
                         (ax_call a (Call ''plot'' [VList x, VList (map ?kde x)] ?kw) ?w1)"
        define w3 where "w3 = ax_call a (Call ''plot'' [VList x, VList (map ?kde x)]
                                          ((''color'', VStr color) # kw2))
            (if hist
             then ax_call a
                    (Call ''hist'' [as_pyval s, VNum (real nbins)]
                       [(''normed'', VBool True), (''color'', VStr color), (''alpha'', VNum 0.4)]) w2
             else w2)"
        have w3: "extends1 a ?w1 w3"
          unfolding w3_def w2_def
          by (auto intro!: extends1_call extends_call extends_refl)
        define rg where "rg = rugplot L (as_pyval s) (Some (Max (set (map ?kde x)) * 0.05))
                                [(''ax'', VAxis a), (''color'', VStr color),
                                 (''alpha'', VNum 0.7), (''linewidth'', VNum 2)] w3"
        have rg: "\<exists>w4. rg = (Inr a, w4) \<and> extends1 a w3 w4"
          unfolding rg_def
          by (cases rule: rugplot_run[of "[(''ax'', VAxis a), (''color'', VStr color),
                                 (''alpha'', VNum 0.7), (''linewidth'', VNum 2)]" L "as_pyval s"
                "Some (Max (set (map ?kde x)) * 0.05)" w3])
            (auto simp: named_ax_def get_def)
        have "(\<exists>e w'. kdeplot L s npts hist nbins rug shade kw w = (Inl e, w') \<and> extends a ?w1 w') \<or>
              (\<exists>w'. kdeplot L s npts hist nbins rug shade kw w = (Inr a, w') \<and> extends1 a ?w1 w')"
        proof (cases "rug \<and> map ?kde x = []")
          case True
          then have "kdeplot L s npts hist nbins rug shade kw w = (Inl zero_size, w3)"
            using Inr a
            by (simp add: kdeplot_def K Let_def case_prod_beta w3_def w2_def color_def kw2_def)
          then show ?thesis using extends1_extends[OF w3] by blast
        next
          case False
          obtain w4 where w4: "rg = (Inr a, w4)" "extends1 a w3 w4" using rg by blast
          define w5 where "w5 = (if rug then w4 else w3)"
          have w5: "extends1 a ?w1 w5"
            unfolding w5_def using w3 extends1_then[OF w3 extends1_extends[OF w4(2)]] by simp
          have "kdeplot L s npts hist nbins rug shade kw w =
                  (Inr a, if shade
                          then ax_call a
                                 (Call ''fill_between'' [VList x, VNum 0, VList (map ?kde x)]
                                    [(''color'', VStr color), (''alpha'', VNum 0.25)]) w5
                          else w5)"
            using Inr a False w4(1)[unfolded rg_def color_def w3_def w2_def kw2_def]
            by (auto simp: kdeplot_def K Let_def case_prod_beta w3_def w2_def color_def kw2_def w5_def)
          moreover have "extends1 a ?w1 (if shade
                          then ax_call a
                                 (Call ''fill_between'' [VList x, VNum 0, VList (map ?kde x)]
                                    [(''color'', VStr color), (''alpha'', VNum 0.25)]) w5
                          else w5)"
            using w5 extends1_then[OF w5 extends_call[OF extends_refl]] by simp
          ultimately show ?thesis by blast
        qed
        then show thesis using fail ok a by blast
      qed
    qed
  qed
qed

section \<open>symmatplot and corrplot: the axis and the colorbar\<close>

lemma plt_colorbar_ax_call: "plt_colorbar a (ax_call b c w) = ax_call b c (plt_colorbar a w)"
  by (simp add: plt_colorbar_def ax_call_def)

lemma extends_for_each:
  assumes "\<And>x w. extends a w (snd (body x w))"
  shows "extends a w (snd (for_each body xs w))"
proof (induction xs arbitrary: w)
  case Nil
  then show ?case by (simp add: extends_refl)
next
  case (Cons x xs)
  obtain eo w1 where b: "body x w = (eo, w1)" by (cases "body x w")
  have w1: "extends a w w1" using assms[of w x] b by simp
  show ?case
  proof (cases eo)
    case None
    then show ?thesis using b extends_trans[OF w1 Cons.IH[of w1]] by simp
  next
    case (Some e)
    then show ?thesis using b w1 by simp
  qed
qed

lemma symmatplot_run:
  obtains (fail) e a w' where
      "symmatplot L mat p_mat names cmap cmap_range cbar kw w = (Inl e, w')"
      "extends a (snd (plt_subplot w)) w' \<or>
       cbar \<and> extends a (plt_colorbar a (snd (plt_subplot w))) w'"
  | (ok) a w' where
      "fst (pop ''ax'' (VAxis (fst (plt_subplot w))) kw) = VAxis a"
      "symmatplot L mat p_mat names cmap cmap_range cbar kw w = (Inr a, w')"
      "extends1 a (if cbar then plt_colorbar a (snd (plt_subplot w)) else snd (plt_subplot w)) w'"
proof -
  let ?w1 = "snd (plt_subplot w)"
  let ?v = "fst (pop ''ax'' (VAxis (fst (plt_subplot w))) kw)"
  let ?kw = "snd (pop ''ax'' (VAxis (fst (plt_subplot w))) kw)"
  let ?n = "length mat"
  show thesis
  proof (cases "list_all (\<lambda>row. ?n \<le> length row) mat")
    case False
    then have "symmatplot L mat p_mat names cmap cmap_range cbar kw w = (Inl IndexError, ?w1)"
      by (simp add: symmatplot_def Let_def case_prod_beta)
    then show thesis using fail[OF _ disjI1[OF extends_refl]] by blast
  next
    case sq: True
    show thesis
    proof (cases "symmat_range mat cmap_range")
      case (Inl e)
      then have "symmatplot L mat p_mat names cmap cmap_range cbar kw w = (Inl e, ?w1)"
        using sq by (simp add: symmatplot_def Let_def case_prod_beta)
      then show thesis using fail[OF _ disjI1[OF extends_refl]] by blast
    next
      case (Inr vv)
      obtain vmin vmax where vv: "vv = (vmin, vmax)" by (cases vv)
      show thesis
      proof (cases "\<exists>a. ?v = VAxis a")
        case False
        then have na: "\<And>a. ?v \<noteq> VAxis a" by blast
        have "symmatplot L mat p_mat names cmap cmap_range cbar kw w = (Inl AttributeError, ?w1)"
          using sq Inr vv
          by (simp add: symmatplot_def Let_def case_prod_beta case_not_axis[OF na])
        then show thesis using fail[OF _ disjI1[OF extends_refl]] by blast
      next
        case True
        then obtain a where a: "?v = VAxis a" by blast
        obtain ko w2 where kc: "kw_call a ''matshow'' [VSeq (map VSeq (plotmat mat))]
                             [(''cmap'', cmap), (''vmin'', vmin), (''vmax'', vmax)] ?kw ?w1 = (ko, w2)"
          by (cases "kw_call a ''matshow'' [VSeq (map VSeq (plotmat mat))]
                             [(''cmap'', cmap), (''vmin'', vmin), (''vmax'', vmax)] ?kw ?w1")
        show thesis
        proof (cases ko)
          case (Some e)
          then have "symmatplot L mat p_mat names cmap cmap_range cbar kw w = (Inl e, ?w1)"
            using sq Inr vv a kc kw_call_Some[OF kc[unfolded Some]]
            by (simp add: symmatplot_def Let_def case_prod_beta)
          then show thesis using fail[OF _ disjI1[OF extends_refl]] by blast
        next
          case None
          define base where "base = (if cbar then plt_colorbar a ?w1 else ?w1)"
          define w3 where "w3 = (if cbar then plt_colorbar a w2 else w2)"
          have w2: "w2 = ax_call a (Call ''matshow'' [VSeq (map VSeq (plotmat mat))]
                             ([(''cmap'', cmap), (''vmin'', vmin), (''vmax'', vmax)] @ ?kw)) ?w1"
            using kw_call_None[OF kc[unfolded None]] .
          have w3: "extends1 a base w3"
            unfolding w3_def base_def w2
            by (auto simp: plt_colorbar_ax_call intro!: extends1_call extends_refl)
          define pm where "pm = (case p_mat of None \<Rightarrow> replicate ?n (replicate ?n 1) | Some p \<Rightarrow> p)"
          define body where "body = (\<lambda>(i, j) w.
                                        case mat_at mat i j of
                                          Inl e \<Rightarrow> (Some e, w)
                                        | Inr val \<Rightarrow>
                                            (case mat_at pm i j of
                                               Inl e \<Rightarrow> (Some e, w)
                                             | Inr p \<Rightarrow>
                                                 (None,
                                                  ax_call a
                                                    (Call ''text''
                                                       [VNum (real j), VNum (real i),
                                                        VStr (format L ''\<newline>%.3g\<newline>%s''
                                                                [VNum val, VStr (sig_stars L p)])]
                                                       [(''fontdict'', VDict center)]) w)))"
          have body: "extends a u (snd (body x u))" for x u
            unfolding body_def
            by (auto simp: case_prod_beta split: sum.splits intro!: extends_call extends_refl)
          obtain eo w4 where fe: "for_each body (triu_indices ?n 1) w3 = (eo, w4)"
            by (cases "for_each body (triu_indices ?n 1) w3")
          have w4: "extends1 a base w4"
            using extends1_then[OF w3 extends_for_each[of a body w3 "triu_indices ?n 1", OF body]] fe
            by simp
          have be: "cbar \<and> extends a (plt_colorbar a ?w1) w4 \<or> extends a ?w1 w4"
            using extends1_extends[OF w4] unfolding base_def by (cases cbar) simp_all
          have "(\<exists>e. symmatplot L mat p_mat names cmap cmap_range cbar kw w = (Inl e, w4)) \<or>
                (\<exists>w'. symmatplot L mat p_mat names cmap cmap_range cbar kw w = (Inr a, w') \<and>
                       extends a w4 w')"
            using sq Inr vv a kc[unfolded None] fe[unfolded body_def pm_def w3_def]
            by (cases eo)
              (auto simp: symmatplot_def Let_def case_prod_beta
                intro!: extends_call extends_calls extends_refl)
          then show thesis
          proof
            assume "\<exists>e. symmatplot L mat p_mat names cmap cmap_range cbar kw w = (Inl e, w4)"
            then show thesis using fail be by blast
          next
            assume "\<exists>w'. symmatplot L mat p_mat names cmap cmap_range cbar kw w = (Inr a, w') \<and>
                       extends a w4 w'"
            then obtain w' where
              "symmatplot L mat p_mat names cmap cmap_range cbar kw w = (Inr a, w')"
              "extends a w4 w'" by blast
            then show thesis using ok[OF a _ extends1_then[OF w4, unfolded base_def]] by blast
          qed
        qed
      qed
    qed
  qed
qed

lemma corrplot_symmatplot:
  "(\<exists>e. corrplot L data names stars sig_tail sig_corr cmap cmap_range cbar kw w = (Inl e, w)) \<or>
   (\<exists>cr. corrplot L data names stars sig_tail sig_corr cmap cmap_range cbar kw w =
            symmatplot L (corrcoef L data)
              (if stars then Some (randomize_corrmat L data sig_tail sig_corr) else None)
              names cmap cr cbar kw w)"
  by (auto simp: corrplot_def Let_def split: sum.splits)

section \<open>What a call changes\<close>

lemma extends_touches:
  assumes "extends a w1 w'" and "drawn w1 = drawn w"
  shows "touches_one_axis w w'"
proof -
  obtain cs where "w' = ax_calls a cs w1" using assms(1) unfolding extends_def by blast
  then have "drawn w' = (drawn w)(a := drawn w a @ cs)"
    using assms(2) by (simp add: drawn_ax_calls)
  then show ?thesis unfolding touches_one_axis_def by blast
qed

lemma touches_refl: "touches_one_axis w w"
  by (rule extends_touches[OF extends_refl refl])

lemma extends_colorbars: "extends a w1 w' \<Longrightarrow> colorbars w' = colorbars w1"
  by (auto simp: extends_def ax_calls_fields)

lemma extends_subplot:
  assumes "extends a (snd (plt_subplot w)) w'"
  shows "touches_one_axis w w' \<and> colorbars w' = colorbars w"
  using extends_touches[OF assms plt_subplot_drawn] extends_colorbars[OF assms]
  by (simp add: plt_subplot_colorbars)

lemma tsplot_frame:
  "touches_one_axis w (snd (tsplot L x data styles ci cf n sm kw w)) \<and>
   colorbars (snd (tsplot L x data styles ci cf n sm kw w)) = colorbars w"
proof (cases rule: tsplot_cases[of L x data styles ci cf n sm kw w])
  case (error e w')
  then show ?thesis using extends_subplot[OF error(2)] by simp
next
  case (ok w')
  then show ?thesis using extends_subplot[OF extends1_extends[OF ok(2)]] by simp
qed

lemma regplot_frame:
  "touches_one_axis w (snd (regplot L x y xlabel ylabel markerstyle corr_func kw w)) \<and>
   colorbars (snd (regplot L x y xlabel ylabel markerstyle corr_func kw w)) = colorbars w"
proof (cases rule: regplot_run[where kw = kw and L = L and x = x and y = y and xlabel = xlabel and
      ylabel = ylabel and markerstyle = markerstyle and corr_func = corr_func and w = w])
  case (given a w')
  then show ?thesis
    using extends_touches[OF extends1_extends[OF given(3)] refl]
      extends_colorbars[OF extends1_extends[OF given(3)]] by simp
next
  case (new w')
  then show ?thesis using extends_subplot[OF extends1_extends[OF new(3)]] by simp
next
  case fail
  then show ?thesis using touches_refl[of w] by simp
qed

lemma rugplot_frame:
  "touches_one_axis w (snd (rugplot L s height kw w)) \<and>
   colorbars (snd (rugplot L s height kw w)) = colorbars w"
proof (cases rule: rugplot_run[where kw = kw and L = L and s = s and height = height and w = w])
  case (given a w')
  then show ?thesis
    using extends_touches[OF extends1_extends[OF given(3)] refl]
      extends_colorbars[OF extends1_extends[OF given(3)]] by simp
next
  case (new w')
  then show ?thesis using extends_subplot[OF extends1_extends[OF new(3)]] by simp
next
  case fail
  then show ?thesis using touches_refl[of w] by simp
qed

lemma boxplot_frame:
  "touches_one_axis w (snd (boxplot L vals join_rm names color kw w)) \<and>
   colorbars (snd (boxplot L vals join_rm names color kw w)) = colorbars w"
proof (cases rule: boxplot_run[of L vals join_rm color kw w])
  case (fail e a w')
  then show ?thesis using extends_subplot[OF fail(2)] by simp
next
  case (drawn a k w')
  have e: "extends a (snd (plt_subplot w)) w'"
    using extends1_extends[OF extends_by_extends1[OF drawn(3)]] .
  have "extends a (snd (plt_subplot w)) (snd (boxplot L vals join_rm names color kw w))"
    using drawn(2)[of names] e by (auto split: option.splits intro!: extends_call)
  then show ?thesis by (rule extends_subplot)
qed

lemma kdeplot_frame:
  "touches_one_axis w (snd (kdeplot L s npts hist nbins rug shade kw w)) \<and>
   colorbars (snd (kdeplot L s npts hist nbins rug shade kw w)) = colorbars w"
proof (cases rule: kdeplot_run[of L s npts hist nbins rug shade kw w])
  case (fail e a w')
  then show ?thesis using extends_subplot[OF fail(2)] by simp
next
  case (ok a w')
  then show ?thesis using extends_subplot[OF extends1_extends[OF ok(3)]] by simp
qed

lemma violin_frame:
  "touches_one_axis w (snd (violin L v inner position widths join_rm names kw w)) \<and>
   colorbars (snd (violin L v inner position widths join_rm names kw w)) = colorbars w"
proof (cases rule: violin_run[of L v inner position widths join_rm kw w])
  case (fail e a w')
  then show ?thesis using extends_subplot[OF fail(2)] by simp
next
  case (drawn a bins c w')
  obtain args k where "extends_by a (Call ''fill_betweenx'' args k) (snd (plt_subplot w)) w'"
    using drawn(4) by blast
  then have e: "extends a (snd (plt_subplot w)) w'"
    using extends1_extends[OF extends_by_extends1] by blast
  have "extends a (snd (plt_subplot w)) (snd (violin L v inner position widths join_rm names kw w))"
    using drawn(3)[of names] e by (auto split: option.splits intro!: extends_call)
  then show ?thesis by (rule extends_subplot)
qed

lemma plt_colorbar_fields:
  "drawn (plt_colorbar a w) = drawn w" "colorbars (plt_colorbar a w) = colorbars w @ [a]"
  by (simp_all add: plt_colorbar_def)

lemma symmatplot_frame:
  "touches_one_axis w (snd (symmatplot L mat p_mat names cmap cmap_range cbar kw w)) \<and>
   (colorbars (snd (symmatplot L mat p_mat names cmap cmap_range cbar kw w)) = colorbars w \<or>
    cbar \<and> (\<exists>a. colorbars (snd (symmatplot L mat p_mat names cmap cmap_range cbar kw w)) =
                   colorbars w @ [a]))"
proof (cases rule: symmatplot_run[of L mat p_mat names cmap cmap_range cbar kw w])
  case (fail e a w')
  from fail(2) show ?thesis
  proof
    assume "extends a (snd (plt_subplot w)) w'"
    then show ?thesis using extends_subplot fail(1) by simp
  next
    assume c: "cbar \<and> extends a (plt_colorbar a (snd (plt_subplot w))) w'"
    then have "touches_one_axis w w'"
      by (intro extends_touches[of a "plt_colorbar a (snd (plt_subplot w))"])
        (simp_all add: plt_colorbar_fields plt_subplot_drawn)
    moreover have "colorbars w' = colorbars w @ [a]"
      using c extends_colorbars[of a "plt_colorbar a (snd (plt_subplot w))" w']
      by (simp add: plt_colorbar_fields plt_subplot_colorbars)
    ultimately show ?thesis using fail(1) c by auto
  qed
next
  case (ok a w')
  let ?b = "if cbar then plt_colorbar a (snd (plt_subplot w)) else snd (plt_subplot w)"
  have e: "extends a ?b w'" using extends1_extends[OF ok(3)] .
  have "touches_one_axis w w'"
    by (rule extends_touches[OF e]) (simp add: plt_colorbar_fields plt_subplot_drawn)
  moreover have "colorbars w' = colorbars ?b" using extends_colorbars[OF e] .
  ultimately show ?thesis
    using ok(2) by (auto simp: plt_colorbar_fields plt_subplot_colorbars)
qed

lemma corrplot_frame:
  "touches_one_axis w
     (snd (corrplot L data names stars sig_tail sig_corr cmap cmap_range cbar kw w)) \<and>
   (colorbars (snd (corrplot L data names stars sig_tail sig_corr cmap cmap_range cbar kw w)) =
      colorbars w \<or>
    cbar \<and> (\<exists>a. colorbars
                   (snd (corrplot L data names stars sig_tail sig_corr cmap cmap_range cbar kw w)) =
                 colorbars w @ [a]))"
  using corrplot_symmatplot[of L data names stars sig_tail sig_corr cmap cmap_range cbar kw w]
proof (elim disjE exE)
  fix e
  assume "corrplot L data names stars sig_tail sig_corr cmap cmap_range cbar kw w = (Inl e, w)"
  then show ?thesis using touches_refl[of w] by simp
next
  fix cr
  assume "corrplot L data names stars sig_tail sig_corr cmap cmap_range cbar kw w =
            symmatplot L (corrcoef L data)
              (if stars then Some (randomize_corrmat L data sig_tail sig_corr) else None)
              names cmap cr cbar kw w"
  then show ?thesis
    using symmatplot_frame[of w L "corrcoef L data"
        "if stars then Some (randomize_corrmat L data sig_tail sig_corr) else None"
        names cmap cr cbar kw]
    by simp
qed

lemma given_axis_only:
  "named_ax kw = VAxis a \<Longrightarrow>
     \<exists>cs. snd (regplot L x y xlabel ylabel markerstyle corr_func kw w) = ax_calls a cs w"
  "named_ax kw = VAxis a \<Longrightarrow> \<exists>cs. snd (rugplot L s height kw w) = ax_calls a cs w"
proof -
  assume a: "named_ax kw = VAxis a"
  show "\<exists>cs. snd (regplot L x y xlabel ylabel markerstyle corr_func kw w) = ax_calls a cs w"
  proof (cases rule: regplot_run[where kw = kw and L = L and x = x and y = y and xlabel = xlabel and
      ylabel = ylabel and markerstyle = markerstyle and corr_func = corr_func and w = w])
    case (given b w')
    then show ?thesis using a by (auto simp: extends1_def)
  next
    case (new w')
    then show ?thesis using a by simp
  next
    case fail
    show ?thesis using fail(2)[of a] a by simp
  qed
  show "\<exists>cs. snd (rugplot L s height kw w) = ax_calls a cs w"
  proof (cases rule: rugplot_run[where kw = kw and L = L and s = s and height = height and w = w])
    case (given b w')
    then show ?thesis using a by (auto simp: extends1_def)
  next
    case (new w')
    then show ?thesis using a by simp
  next
    case fail
    show ?thesis using fail(2)[of a] a by simp
  qed
qed

text \<open>
  C2. The claim is that a call changes nothing but the axis it draws on. symmatplot, and
  corrplot through it, call \<^verbatim>\<open>plt.colorbar(mat_img)\<close> when \<^verbatim>\<open>cbar\<close> is true (the default),
  which adds a colorbar to pyplot's current figure: with an axis supplied, and that axis
  the subplot 111 of the figure so that \<^verbatim>\<open>plt.subplot(111)\<close> changes nothing, the
  colorbars of the world still change.
\<close>

theorem supplied_axis_colorbar_counterexample:
  "fst (symmatplot unit_libs [[1]] None None (VStr ''Spectral_r'') (VList [- 1, 1]) True
          [(''ax'', VAxis 0)] current_axis) = Inr 0 \<and>
   colorbars (snd (symmatplot unit_libs [[1]] None None (VStr ''Spectral_r'') (VList [- 1, 1]) True
          [(''ax'', VAxis 0)] current_axis)) = [0] \<and>
   colorbars current_axis = []"
  by (simp add: symmatplot_def pop_def plt_subplot_def current_axis_def symmat_range_def
      py_len_def unpack2_def kw_call_def plotmat_def triu_indices_def ax_call_def ax_calls_def
      plt_colorbar_def linspace_def enumerate_eq_zip Let_def)

text \<open>
  What holds instead: the calls of a plotting function go to one axis, and the calls of
  every other axis stay as they were, also when the function raises; the colorbars change
  only in symmatplot and corrplot, by one colorbar when \<^verbatim>\<open>cbar\<close> is true; regplot and
  rugplot, given an axis, change nothing but the calls of that axis. Whether
  \<^verbatim>\<open>plt.subplot(111)\<close> runs when an axis is supplied is not part of the statement.
\<close>

theorem calls_touch_one_axis:
  "(named_ax kw = VAxis a \<longrightarrow>
      (\<exists>cs. snd (regplot L x y xlabel ylabel markerstyle corr_func kw w) = ax_calls a cs w) \<and>
      (\<exists>cs. snd (rugplot L s height kw w) = ax_calls a cs w)) \<and>
   touches_one_axis w (snd (tsplot L x data err_style ci central_func n_boot smooth kw w)) \<and>
   colorbars (snd (tsplot L x data err_style ci central_func n_boot smooth kw w)) = colorbars w \<and>
   touches_one_axis w (snd (regplot L x y xlabel ylabel markerstyle corr_func kw w)) \<and>
   colorbars (snd (regplot L x y xlabel ylabel markerstyle corr_func kw w)) = colorbars w \<and>
   touches_one_axis w (snd (boxplot L vals join_rm names color kw w)) \<and>
   colorbars (snd (boxplot L vals join_rm names color kw w)) = colorbars w \<and>
   touches_one_axis w (snd (kdeplot L arr npts hist nbins rug shade kw w)) \<and>
   colorbars (snd (kdeplot L arr npts hist nbins rug shade kw w)) = colorbars w \<and>
   touches_one_axis w (snd (rugplot L s height kw w)) \<and>
   colorbars (snd (rugplot L s height kw w)) = colorbars w \<and>
   touches_one_axis w (snd (violin L v inner position widths join_rm names kw w)) \<and>
   colorbars (snd (violin L v inner position widths join_rm names kw w)) = colorbars w \<and>
   touches_one_axis w (snd (symmatplot L mat p_mat names cmap cmap_range cbar kw w)) \<and>
   (colorbars (snd (symmatplot L mat p_mat names cmap cmap_range cbar kw w)) = colorbars w \<or>
    cbar \<and> (\<exists>b. colorbars (snd (symmatplot L mat p_mat names cmap cmap_range cbar kw w)) =
                   colorbars w @ [b])) \<and>
   touches_one_axis w
     (snd (corrplot L data names stars sig_tail sig_corr cmap cmap_range cbar kw w)) \<and>
   (colorbars (snd (corrplot L data names stars sig_tail sig_corr cmap cmap_range cbar kw w)) =
      colorbars w \<or>
    cbar \<and> (\<exists>b. colorbars
                   (snd (corrplot L data names stars sig_tail sig_corr cmap cmap_range cbar kw w)) =
                 colorbars w @ [b]))"
  using tsplot_frame[of w L x data err_style ci central_func n_boot smooth kw]
    regplot_frame[of w L x y xlabel ylabel markerstyle corr_func kw]
    boxplot_frame[of w L vals join_rm names color kw]
    kdeplot_frame[of w L arr npts hist nbins rug shade kw]
    rugplot_frame[of w L s height kw]
    violin_frame[of w L v inner position widths join_rm names kw]
    symmatplot_frame[of w L mat p_mat names cmap cmap_range cbar kw]
    corrplot_frame[of w L data names stars sig_tail sig_corr cmap cmap_range cbar kw]
    given_axis_only(1)[of kw a L x y xlabel ylabel markerstyle corr_func w]
    given_axis_only(2)[of kw a L s height w]
  by (intro conjI impI) blast+


theorem calls_touch_one_axis_witness:
  "named_ax [(''ax'', VAxis 0)] = VAxis 0 \<and>
   (\<forall>L corr_func.
      (\<exists>cs. snd (regplot L [0, 1] [1, 2] ''x'' ''y'' ''o'' corr_func [(''ax'', VAxis 0)] one_axis) =
            ax_calls 0 cs one_axis) \<and>
      (\<exists>cs. snd (rugplot L (VList [0, 1]) None [(''ax'', VAxis 0)] one_axis) =
            ax_calls 0 cs one_axis))"
proof -
  have h: "named_ax [(''ax'', VAxis 0)] = VAxis 0"
    by (simp add: named_ax_def get_def)
  have "(\<exists>cs. snd (regplot L [0, 1] [1, 2] ''x'' ''y'' ''o'' corr_func [(''ax'', VAxis 0)] one_axis) =
            ax_calls 0 cs one_axis) \<and>
        (\<exists>cs. snd (rugplot L (VList [0, 1]) None [(''ax'', VAxis 0)] one_axis) =
            ax_calls 0 cs one_axis)" for L corr_func
    using calls_touch_one_axis[where kw = "[(''ax'', VAxis 0)]" and a = 0 and w = one_axis
        and L = L and x = "[0, 1]" and y = "[1, 2]" and xlabel = "''x''" and ylabel = "''y''"
        and markerstyle = "''o''" and corr_func = corr_func and s = "VList [0, 1]"
        and height = None, THEN conjunct1, THEN mp, OF h] .
  then show ?thesis using h by blast
qed

lemma extends_fields:
  assumes "extends a w1 w'"
  shows "fig111 w' = fig111 w1" and "next_ax w' = next_ax w1"
  using assms by (auto simp: extends_def ax_calls_fields)

text \<open>
  The default of \<^verbatim>\<open>kwargs.pop("ax", plt.subplot(111))\<close> is evaluated before the pop:
  boxplot, for one, creates a subplot in a figure that has none although an axis is
  supplied, where regplot and rugplot ask \<^verbatim>\<open>if ax is None\<close> first.
\<close>

lemma boxplot_creates_subplot:
  assumes "fig111 w = None"
  shows "next_ax (snd (boxplot L vals join_rm names color ((''ax'', VAxis a) # kw) w)) =
           Suc (next_ax w)"
proof -
  have s: "next_ax (snd (plt_subplot w)) = Suc (next_ax w)"
    using assms by (simp add: plt_subplot_def)
  show ?thesis
  proof (cases rule: boxplot_run[where L = L and vals = vals and join_rm = join_rm and
        color = color and kw = "(''ax'', VAxis a) # kw" and w = w])
    case (fail e b w')
    then show ?thesis using extends_fields(2)[OF fail(2)] s by simp
  next
    case (drawn b k w')
    have e: "extends b (snd (plt_subplot w)) w'"
      using extends1_extends[OF extends_by_extends1[OF drawn(3)]] .
    have "extends b (snd (plt_subplot w))
            (snd (boxplot L vals join_rm names color ((''ax'', VAxis a) # kw) w))"
      using drawn(2)[of names] e by (auto split: option.splits intro!: extends_call)
    then show ?thesis using extends_fields(2) s by simp
  qed
qed

section \<open>Calls with default options\<close>

lemma tsplot_minimal:
  "fst (tsplot L x data [''ci_band''] (16, 84) central_func 10000 False [] w) =
     Inr (fst (plt_subplot w))"
  by (simp add: tsplot_def Let_def case_prod_beta globals_plot_def kw_call_def rest_kwargs_def
      pop_def)

lemma regplot_minimal:
  "fst (regplot L x y '''' '''' ''o'' corr_func [] w) = Inr (fst (plt_subplot w))"
  by (simp add: regplot_def Let_def case_prod_beta named_ax_def get_def)

lemma rugplot_minimal:
  "fst (rugplot L s None [] w) = Inr (fst (plt_subplot w))"
  by (simp add: rugplot_def Let_def case_prod_beta named_ax_def get_def)

lemma kde_support_returns:
  assumes "a \<noteq> []" and "0 < npts"
  shows "\<exists>y. kde_support a kde npts = Inr y"
proof -
  define x where "x = linspace (Min (set a) - (Max (set a) - Min (set a)))
              (Max (set a) + (Max (set a) - Min (set a))) (npts * 2)"
  have x: "x \<noteq> []" unfolding x_def using assms(2) by (intro linspace_nonempty) simp
  have "kde_support a kde npts =
          (if a = [] then Inl zero_size
           else if map kde x = [] then Inl zero_size
           else Inr (filter (\<lambda>t. kde t > Max (set (map kde x)) * (1 / 10000)) x))"
    unfolding kde_support_def Let_def x_def by (rule refl)
  then show ?thesis using assms(1) x by simp
qed

lemma kdeplot_minimal:
  assumes "stats_gaussian_kde L (flat s) = Inr k"
  shows "fst (kdeplot L s 1000 True 20 False False [] w) = Inr (fst (plt_subplot w))"
proof -
  have "flat s \<noteq> []" using assms by (rule stats_gaussian_kde_sample)
  then obtain y where "kde_support (flat s) k 1000 = Inr y"
    using kde_support_returns[of "flat s" 1000 k] by auto
  then show ?thesis
    using assms by (simp add: kdeplot_def Let_def case_prod_beta pop_def)
qed

lemma for_each_None:
  assumes "\<And>x w. x \<in> set xs \<Longrightarrow> fst (body x w) = None"
  shows "fst (for_each body xs w) = None"
  using assms
proof (induction xs arbitrary: w)
  case Nil
  then show ?case by simp
next
  case (Cons x xs)
  obtain eo w1 where b: "body x w = (eo, w1)" by (cases "body x w")
  then have "eo = None" using Cons.prems[of x w] by simp
  moreover have "fst (for_each body xs w1) = None"
    using Cons.prems by (intro Cons.IH) auto
  ultimately show ?case using b by simp
qed

lemma triu_indices_mem:
  "(i, j) \<in> set (triu_indices n k) \<Longrightarrow> i + k \<le> j \<and> j < n"
  by (auto simp: triu_indices_def)

lemma triu_indices_first: "2 \<le> n \<Longrightarrow> (0, 1) \<in> set (triu_indices n 1)"
  by (auto simp: triu_indices_def intro!: bexI[of _ 0])

lemma square_mat_at:
  assumes "square n m" and "i < n" and "j < n"
  shows "\<exists>v. mat_at m i j = Inr v"
  using assms by (auto simp: square_def mat_at_def list_all_length)

lemma square_ones: "square n (replicate n (replicate n 1))"
  by (simp add: square_def list_all_iff)

lemma symmat_range_returns:
  assumes "square n mat" and "0 < n" and "cr = VNone \<or> (\<exists>lo hi. cr = VList [lo, hi])"
  shows "\<exists>vmin vmax. symmat_range mat cr = Inr (vmin, vmax)"
proof -
  have n: "length mat = n" and r0: "length (mat ! 0) = n"
    using assms(1,2) by (auto simp: square_def list_all_length)
  define r where "r = map (\<lambda>j. if 0 \<le> j \<and> j < length mat then VNaN else VNum (mat ! 0 ! j))
          [0..<length (mat ! 0)]"
  have "r \<in> set (plotmat mat)"
    unfolding plotmat_def r_def using n assms(2) by (auto simp: image_iff intro!: bexI[of _ 0])
  moreover have "r \<noteq> []"
    unfolding r_def using r0 assms(2) by simp
  ultimately have "concat (plotmat mat) \<noteq> []" unfolding concat_eq_Nil_conv by blast
  then show ?thesis
    using assms(3) by (auto simp: symmat_range_def py_len_def unpack2_def)
qed

lemma symmatplot_completes:
  assumes "square n mat" and "0 < n"
    and "p_mat = None \<or> (\<exists>pm. p_mat = Some pm \<and> square n pm)"
    and "cr = VNone \<or> (\<exists>lo hi. cr = VList [lo, hi])"
  shows "fst (symmatplot L mat p_mat names cmap cr cbar [] w) = Inr (fst (plt_subplot w))"
proof -
  let ?a = "fst (plt_subplot w)"
  have n: "length mat = n" using assms(1) by (simp add: square_def)
  have la: "list_all (\<lambda>row. length mat \<le> length row) mat"
    using assms(1) by (auto simp: square_def list_all_iff)
  obtain vmin vmax where sr: "symmat_range mat cr = Inr (vmin, vmax)"
    using symmat_range_returns[OF assms(1,2,4)] by blast
  define pm where "pm = (case p_mat of None \<Rightarrow> replicate (length mat) (replicate (length mat) 1)
                           | Some p \<Rightarrow> p)"
  have pm: "square n pm"
    using assms(3) square_ones[of n] n unfolding pm_def by auto
  define body where "body = (\<lambda>(i, j) w.
                                        case mat_at mat i j of
                                          Inl e \<Rightarrow> (Some e, w)
                                        | Inr val \<Rightarrow>
                                            (case mat_at pm i j of
                                               Inl e \<Rightarrow> (Some e, w)
                                             | Inr p \<Rightarrow>
                                                 (None,
                                                  ax_call ?a
                                                    (Call ''text''
                                                       [VNum (real j), VNum (real i),
                                                        VStr (format L ''\<newline>%.3g\<newline>%s''
                                                                [VNum val, VStr (sig_stars L p)])]
                                                       [(''fontdict'', VDict center)]) w)))"
  have body: "fst (body x u) = None" if "x \<in> set (triu_indices (length mat) 1)" for x u
  proof -
    obtain i j where x: "x = (i, j)" by (cases x)
    then have "i + 1 \<le> j \<and> j < n" using that n triu_indices_mem[of i j "length mat" 1] by simp
    then have ij: "i < n" "j < n" by auto
    obtain v p where "mat_at mat i j = Inr v" "mat_at pm i j = Inr p"
      using square_mat_at[OF assms(1) ij] square_mat_at[OF pm ij] by blast
    then show ?thesis unfolding body_def x by simp
  qed
  have "fst (for_each body (triu_indices (length mat) 1) u) = None" for u
    by (rule for_each_None) (rule body)
  note fe = this[unfolded body_def One_nat_def]
  show ?thesis
    using la sr
    by (simp add: symmatplot_def Let_def case_prod_beta pop_def kw_call_def pm_def[symmetric] fe)
qed

lemma corrplot_completes:
  assumes "2 \<le> length data"
    and "square (length data) (corrcoef L data)"
    and "stars \<longrightarrow> square (length data) (randomize_corrmat L data sig_tail sig_corr)"
  shows "fst (corrplot L data names stars sig_tail sig_corr cmap VNone cbar [] w) =
           Inr (fst (plt_subplot w))"
proof -
  let ?n = "length data"
  let ?m = "corrcoef L data"
  let ?idx = "triu_indices ?n 1"
  have valid: "list_all (\<lambda>(i, j). i < length ?m \<and> j < length (?m ! i)) ?idx"
    unfolding list_all_iff
  proof (intro ballI)
    fix p
    assume p: "p \<in> set ?idx"
    obtain i j where ij: "p = (i, j)" by (cases p)
    then have "i + 1 \<le> j \<and> j < ?n" using p triu_indices_mem[of i j ?n 1] by simp
    then have "i < ?n" "j < ?n" by auto
    then show "case p of (i, j) \<Rightarrow> i < length ?m \<and> j < length (?m ! i)"
      using assms(2) ij by (auto simp: square_def list_all_length)
  qed
  have ne: "?idx \<noteq> []" using triu_indices_first[OF assms(1)] by auto
  then have g: "gather ?m ?idx = Inr (map (\<lambda>(i, j). ?m ! i ! j) ?idx)"
    "map (\<lambda>(i, j). ?m ! i ! j) ?idx \<noteq> []"
    using valid by (simp_all add: gather_def)
  define vmax where "vmax = min 1 (Max (set (map abs (map (\<lambda>(i, j). ?m ! i ! j) ?idx))) * 1.15)"
  have c: "corrplot L data names stars sig_tail sig_corr cmap VNone cbar [] w =
          symmatplot L ?m
            (if stars then Some (randomize_corrmat L data sig_tail sig_corr) else None)
            names cmap (VList [- vmax, vmax]) cbar [] w"
    using g by (simp add: corrplot_def Let_def vmax_def)
  show ?thesis
    unfolding c
    using assms(1,3)
    by (intro symmatplot_completes[OF assms(2)]) auto
qed

text \<open>
  C7, as stated, fails on the smallest single-column array: on the array of one row and
  one column, with default options, kdeplot and violin raise the ValueError with which
  scipy refuses a sample of one element.
\<close>

theorem one_element_column_raises_counterexample:
  "fst (kdeplot unit_libs \<lparr>shape = [1, 1], flat = [1]\<rparr> 1000 True 20 False False []
          one_axis) =
     Inl (ValueError ''`dataset` input should have multiple elements.'') \<and>
   fst (violin unit_libs (Arr \<lparr>shape = [1, 1], flat = [1]\<rparr>) ''box'' PosNone 0.3 False None
          [] one_axis) =
     Inl (ValueError ''`dataset` input should have multiple elements.'')"
  by (simp add: kdeplot_def violin_def violin_vals_def violin_one_def stats_gaussian_kde_def
      multiple_elements_def plt_subplot_def one_axis_def pop_def arange_def kw_call_def
      Let_def case_prod_beta)

text \<open>
  C7. What holds instead: with default options, no axis and no further keyword
  argument, a plotting function completes on well-formed input that its collaborators
  accept. Within the model a call raises through the module's own checks, through a
  missing first element or index, through a repeated keyword, through a method called on
  what is no axis, through numpy's reductions over no element, or where
  \<^verbatim>\<open>stats.gaussian_kde\<close> refuses the sample. None of these occurs for tsplot, regplot
  and rugplot on any data; for boxplot on a sequence with a first container; for kdeplot
  on an array from which \<^verbatim>\<open>stats.gaussian_kde\<close> builds a density, which takes more than
  one element; for violin on a single column from which it builds a density that is
  positive, as a Gaussian estimate is; for symmatplot on a square matrix with a row; for
  corrplot on at least two variables, for which the collaborators answer with square
  matrices.
\<close>

theorem default_calls_complete:
  "fst (tsplot L x data [''ci_band''] (16, 84) central_func 10000 False [] w) =
     Inr (fst (plt_subplot w)) \<and>
   fst (regplot L x y '''' '''' ''o'' corr_func [] w) = Inr (fst (plt_subplot w)) \<and>
   fst (rugplot L s None [] w) = Inr (fst (plt_subplot w)) \<and>
   (vals \<noteq> [] \<longrightarrow>
      fst (boxplot L vals False None None [] w) = Inr (fst (plt_subplot w))) \<and>
   (stats_gaussian_kde L (flat arr) = Inr k \<longrightarrow>
      fst (kdeplot L arr 1000 True 20 False False [] w) = Inr (fst (plt_subplot w))) \<and>
   (stats_gaussian_kde L col = Inr k' \<and> (\<forall>t. 0 < k' t) \<longrightarrow>
      fst (violin L (Arr \<lparr>shape = [length col, 1], flat = col\<rparr>) ''box'' PosNone 0.3
             False None [] w) = Inr (fst (plt_subplot w))) \<and>
   (mat \<noteq> [] \<and> square (length mat) mat \<longrightarrow>
      fst (symmatplot L mat None None (VStr ''Spectral_r'') VNone True [] w) =
        Inr (fst (plt_subplot w))) \<and>
   (2 \<le> length vars \<and> square (length vars) (corrcoef L vars) \<and>
    square (length vars) (randomize_corrmat L vars ''both'' True) \<longrightarrow>
      fst (corrplot L vars None True ''both'' True (VStr ''Spectral_r'') VNone True [] w) =
        Inr (fst (plt_subplot w)))"
proof (intro conjI impI)
  show "fst (tsplot L x data [''ci_band''] (16, 84) central_func 10000 False [] w) =
     Inr (fst (plt_subplot w))" by (rule tsplot_minimal)
  show "fst (regplot L x y '''' '''' ''o'' corr_func [] w) = Inr (fst (plt_subplot w))"
    by (rule regplot_minimal)
  show "fst (rugplot L s None [] w) = Inr (fst (plt_subplot w))" by (rule rugplot_minimal)
  show "fst (boxplot L vals False None None [] w) = Inr (fst (plt_subplot w))" if "vals \<noteq> []"
    using that by (rule boxplot_minimal)
  show "fst (kdeplot L arr 1000 True 20 False False [] w) = Inr (fst (plt_subplot w))"
    if "stats_gaussian_kde L (flat arr) = Inr k"
    using that by (rule kdeplot_minimal)
  show "fst (violin L (Arr \<lparr>shape = [length col, 1], flat = col\<rparr>) ''box'' PosNone 0.3
             False None [] w) = Inr (fst (plt_subplot w))"
    if "stats_gaussian_kde L col = Inr k' \<and> (\<forall>t. 0 < k' t)"
    using that by (intro violin_single_column[where k = k']) auto
  show "fst (symmatplot L mat None None (VStr ''Spectral_r'') VNone True [] w) =
        Inr (fst (plt_subplot w))"
    if "mat \<noteq> [] \<and> square (length mat) mat"
    using that by (intro symmatplot_completes[of "length mat"]) auto
  show "fst (corrplot L vars None True ''both'' True (VStr ''Spectral_r'') VNone True [] w) =
        Inr (fst (plt_subplot w))"
    if "2 \<le> length vars \<and> square (length vars) (corrcoef L vars) \<and>
        square (length vars) (randomize_corrmat L vars ''both'' True)"
    using that by (intro corrplot_completes) auto
qed

text \<open>
  A column of three values, for one: the collaborators that answer with constants build
  a density from it.
\<close>

theorem default_calls_complete_witness:
  "[[1::real]] \<noteq> [] \<and>
   stats_gaussian_kde unit_libs (flat \<lparr>shape = [3, 1], flat = [1, 2, 4]\<rparr>) = Inr (\<lambda>t. 1) \<and>
   (stats_gaussian_kde unit_libs [1, 2, 4] = Inr (\<lambda>t. 1) \<and> (\<forall>t. 0 < (\<lambda>t. 1 :: real) t)) \<and>
   ([[1::real]] \<noteq> [] \<and> square (length [[1::real]]) [[1]]) \<and>
   (2 \<le> length [[1::real, 2], [2, 1]] \<and>
    square (length [[1::real, 2], [2, 1]]) (corrcoef unit_libs [[1, 2], [2, 1]]) \<and>
    square (length [[1::real, 2], [2, 1]])
      (randomize_corrmat unit_libs [[1, 2], [2, 1]] ''both'' True)) \<and>
   fst (tsplot unit_libs [0, 1] [[1, 2]] [''ci_band''] (16, 84) hd 10000 False [] one_axis) =
     Inr 1 \<and>
   fst (regplot unit_libs [0, 1] [1, 2] '''' '''' ''o'' (polyfit unit_libs) [] one_axis) = Inr 1 \<and>
   fst (rugplot unit_libs (VList [1]) None [] one_axis) = Inr 1 \<and>
   fst (boxplot unit_libs [[1]] False None None [] one_axis) = Inr 1 \<and>
   fst (kdeplot unit_libs \<lparr>shape = [3, 1], flat = [1, 2, 4]\<rparr> 1000 True 20 False False []
          one_axis) = Inr 1 \<and>
   fst (violin unit_libs (Arr \<lparr>shape = [length [1::real, 2, 4], 1], flat = [1, 2, 4]\<rparr>) ''box''
          PosNone 0.3 False None [] one_axis) = Inr 1 \<and>
   fst (symmatplot unit_libs [[1]] None None (VStr ''Spectral_r'') VNone True [] one_axis) =
     Inr 1 \<and>
   fst (corrplot unit_libs [[1, 2], [2, 1]] None True ''both'' True (VStr ''Spectral_r'') VNone
          True [] one_axis) = Inr 1"
proof -
  have s: "fst (plt_subplot one_axis) = 1" by (simp add: plt_subplot_def one_axis_def)
  have h: "[[1::real]] \<noteq> []"
    "stats_gaussian_kde unit_libs (flat \<lparr>shape = [3, 1], flat = [1, 2, 4]\<rparr>) = Inr (\<lambda>t. 1)"
    "stats_gaussian_kde unit_libs [1, 2, 4] = Inr (\<lambda>t. 1) \<and> (\<forall>t. 0 < (\<lambda>t. 1 :: real) t)"
    "[[1::real]] \<noteq> [] \<and> square (length [[1::real]]) [[1]]"
    "2 \<le> length [[1::real, 2], [2, 1]] \<and>
     square (length [[1::real, 2], [2, 1]]) (corrcoef unit_libs [[1, 2], [2, 1]]) \<and>
     square (length [[1::real, 2], [2, 1]])
       (randomize_corrmat unit_libs [[1, 2], [2, 1]] ''both'' True)"
    by (simp_all add: unit_libs_def square_def stats_gaussian_kde_def)
  note t = default_calls_complete[where L = unit_libs and w = one_axis and x = "[0, 1]" and
      data = "[[1, 2]]" and central_func = hd and y = "[1, 2]" and
      corr_func = "polyfit unit_libs" and s = "VList [1]" and vals = "[[1]]" and
      arr = "\<lparr>shape = [3, 1], flat = [1, 2, 4]\<rparr>" and k = "\<lambda>t. 1" and col = "[1, 2, 4]" and
      k' = "\<lambda>t. 1" and mat = "[[1]]" and vars = "[[1, 2], [2, 1]]", unfolded s]
  show ?thesis
    using t h by blast
qed

section \<open>Calls without an axis\<close>

text \<open>
  Given \<^verbatim>\<open>ax=None\<close> in so many words, the functions that pop the axis from their keyword
  arguments take \<^verbatim>\<open>None\<close> for the axis and raise at its first method call, where
  regplot and rugplot test for \<^verbatim>\<open>None\<close> and take the subplot.
\<close>

lemma boxplot_explicit_none:
  "fst (boxplot L vals join_rm names color [(''ax'', VNone)] w) = Inl AttributeError"
  by (simp add: boxplot_def boxplot_color_def pop_def subscript0_def get_def Let_def case_prod_beta
      split: option.splits sum.splits list.splits)

text \<open>
  C6. Called without an axis, a function takes \<^verbatim>\<open>plt.subplot(111)\<close>. Where pyplot's
  current figure has a subplot 111 already, which holds a line here, regplot creates no
  axis: it draws on that subplot and returns it. And boxplot, given \<^verbatim>\<open>ax=None\<close>, draws
  nothing and raises AttributeError.
\<close>

theorem no_axis_creates_no_surface:
  "fst (regplot unit_libs [0, 1] [1, 2] '''' '''' ''o'' (polyfit unit_libs) [] current_axis) =
     Inr 0 \<and>
   fig111 current_axis = Some 0 \<and>
   drawn current_axis 0 = [Call ''plot'' [VList [0, 1], VList [1, 0]] []] \<and>
   next_ax (snd (regplot unit_libs [0, 1] [1, 2] '''' '''' ''o'' (polyfit unit_libs) []
                   current_axis)) = next_ax current_axis \<and>
   boxplot unit_libs [[1, 2]] False None None [(''ax'', VNone)] one_axis =
     (Inl AttributeError, one_axis\<lparr>fig111 := Some 1, next_ax := 2\<rparr>)"
  by (simp add: regplot_def boxplot_def boxplot_color_def subscript0_def pop_def named_ax_def
      get_def rest_kwargs_def plt_subplot_def current_axis_def one_axis_def Let_def ax_call_def
      ax_calls_def kw_call_def case_prod_beta)

end
